theory Spec2Isabelle
  imports Complex_Main "HOL-Library.Word" "HOL-Library.Log_Nat"
begin

section \<open>Constants of package graphics\<close>

text \<open>
  \<^verbatim>\<open>IndicesCount = (1 << 16) / 3 * 3\<close> and \<^verbatim>\<open>VertexFloatCount = 8\<close>
  (vertex.go). Go's integer division truncates; both operands are positive here.
\<close>

definition IndicesCount :: nat where
  "IndicesCount = (2 ^ 16) div 3 * 3"

definition VertexFloatCount :: nat where
  "VertexFloatCount = 8"

definition ShaderImageCount :: nat where
  "ShaderImageCount = 4"

definition PreservedUniformVariablesCount :: nat where
  "PreservedUniformVariablesCount = 1 + 1 + 1 + 1 + 1 + 1 + 1 + 1"

text \<open>
  How a Go call ends: it returns a value, it panics, or it does not come back
  (a loop that never leaves).
\<close>

datatype 'a outcome = Return 'a | Panic | Hang

section \<open>The vertex backend (vertex.go)\<close>

text \<open>
  A \<^verbatim>\<open>[]float32\<close> value is a window into a backing array. The backing arrays
  are numbered in the order in which \<^verbatim>\<open>make\<close> creates them; a window is the
  number of its array, the first index and the count of floats.
\<close>

record floatSlice =
  s_arr :: nat
  s_off :: int
  s_len :: int

text \<open>
  \<^verbatim>\<open>verticesBackend\<close>: \<open>backend\<close> is \<open>None\<close> for the nil slice, and otherwise
  a window starting at index 0 whose length equals its capacity (it only ever
  comes from \<^verbatim>\<open>make([]float32, n)\<close>). Go's \<^verbatim>\<open>int\<close> is modelled as \<open>int\<close>;
  the lengths involved are bounded by the memory of the machine and stay far
  away from 64-bit overflow. The field \<open>allocs\<close> is the state of the
  allocator: the number of backing arrays made so far, so that the next
  \<^verbatim>\<open>make\<close> yields the array with this number. The mutex \<^verbatim>\<open>m\<close> makes each
  of the two methods atomic; they are modelled as sequential state
  transformers.
\<close>

record verticesBackend =
  backend :: "floatSlice option"
  pos :: int
  notFullyUsedTime :: int
  allocs :: nat

definition backend_len :: "verticesBackend \<Rightarrow> int" where
  "backend_len v = (case backend v of None \<Rightarrow> 0 | Some b \<Rightarrow> s_len b)"

text \<open>
  \<^verbatim>\<open>l := 128 * VertexFloatCount; for l < size { l *= 2 }; return l\<close>.
  Nothing in the text of the loop says that it ends, so it is a partial
  function; that it does end from a positive start is proved below.
\<close>

partial_function (option) float32SizeLoop :: "int \<Rightarrow> int \<Rightarrow> int option" where
  "float32SizeLoop l sz = (if l < sz then float32SizeLoop (l * 2) sz else Some l)"

declare float32SizeLoop.simps [code]

definition verticesBackendFloat32Size :: "int \<Rightarrow> int option" where
  "verticesBackendFloat32Size sz = float32SizeLoop (128 * int VertexFloatCount) sz"

text \<open>
  \<^verbatim>\<open>slice(n)\<close>. A slice expression \<^verbatim>\<open>s[lo:hi]\<close> panics unless
  \<open>0 \<le> lo \<le> hi \<le> cap s\<close>.
\<close>

definition reslice :: "floatSlice option \<Rightarrow> int \<Rightarrow> int \<Rightarrow> floatSlice outcome" where
  "reslice b lo hi =
     (case b of
        None \<Rightarrow> if lo = 0 \<and> hi = 0 then Return \<lparr>s_arr = 0, s_off = 0, s_len = 0\<rparr> else Panic
      | Some a \<Rightarrow>
          if 0 \<le> lo \<and> lo \<le> hi \<and> hi \<le> s_len a
          then Return \<lparr>s_arr = s_arr a, s_off = s_off a + lo, s_len = hi - lo\<rparr>
          else Panic)"

definition make_floats :: "verticesBackend \<Rightarrow> int \<Rightarrow> verticesBackend" where
  "make_floats v n =
     v\<lparr>backend := Some \<lparr>s_arr = allocs v, s_off = 0, s_len = n\<rparr>, allocs := Suc (allocs v)\<rparr>"

definition slice_tail :: "verticesBackend \<Rightarrow> int \<Rightarrow> (floatSlice \<times> verticesBackend) outcome" where
  "slice_tail v need =
     (case reslice (backend v) (pos v) (pos v + need) of
        Return s \<Rightarrow> Return (s, v\<lparr>pos := pos v + need\<rparr>)
      | Panic \<Rightarrow> Panic
      | Hang \<Rightarrow> Hang)"

definition verticesBackend_slice :: "verticesBackend \<Rightarrow> int \<Rightarrow> (floatSlice \<times> verticesBackend) outcome" where
  "verticesBackend_slice v n =
     (let need = n * int VertexFloatCount in
      if backend_len v < pos v + need then
        (case verticesBackendFloat32Size need of
           None \<Rightarrow> Hang
         | Some sz \<Rightarrow>
             let c = max (backend_len v * 2) sz in
             if c < 0 then Panic
             else slice_tail ((make_floats v c)\<lparr>pos := 0\<rparr>) need)
      else slice_tail v need)"

definition Vertices :: "verticesBackend \<Rightarrow> int \<Rightarrow> (floatSlice \<times> verticesBackend) outcome" where
  "Vertices v n = verticesBackend_slice v n"

text \<open>
  \<^verbatim>\<open>lockAndReset(f)\<close>. The callback is any Go closure: it may change the
  backend, return nil (\<open>None\<close>) or an error, panic or hang. Errors are
  opaque values of a type \<open>'e\<close>.
\<close>

definition maxNotFullyUsedTime :: int where
  "maxNotFullyUsedTime = 60"

definition lockAndReset ::
  "(verticesBackend \<Rightarrow> ('e option \<times> verticesBackend) outcome) \<Rightarrow> verticesBackend
     \<Rightarrow> ('e option \<times> verticesBackend) outcome" where
  "lockAndReset f v =
     (case f v of
        Panic \<Rightarrow> Panic
      | Hang \<Rightarrow> Hang
      | Return (Some err, v1) \<Rightarrow> Return (Some err, v1)
      | Return (None, v1) \<Rightarrow>
          (case verticesBackendFloat32Size (pos v1) of
             None \<Rightarrow> Hang
           | Some sz \<Rightarrow>
               let v2 = (if sz < backend_len v1
                         then (if notFullyUsedTime v1 < maxNotFullyUsedTime
                               then v1\<lparr>notFullyUsedTime := notFullyUsedTime v1 + 1\<rparr>
                               else v1)
                         else v1\<lparr>notFullyUsedTime := 0\<rparr>);
                   v3 = (if notFullyUsedTime v2 = maxNotFullyUsedTime \<and> backend_len v2 > 0
                         then v2\<lparr>backend := None, notFullyUsedTime := 0\<rparr>
                         else v2)
               in Return (None, v3\<lparr>pos := 0\<rparr>)))"

definition LockAndResetVertices ::
  "(verticesBackend \<Rightarrow> ('e option \<times> verticesBackend) outcome) \<Rightarrow> verticesBackend
     \<Rightarrow> ('e option \<times> verticesBackend) outcome" where
  "LockAndResetVertices f v = lockAndReset f v"



definition theVerticesBackend :: verticesBackend where
  "theVerticesBackend = \<lparr>backend = None, pos = 0, notFullyUsedTime = 0, allocs = 0\<rparr>"

text \<open>
  A window of use counts as under-used when the size the backend would have
  picked for the floats handed out is smaller than the backing array.
\<close>

definition underUsed :: "verticesBackend \<Rightarrow> bool" where
  "underUsed v =
     (case verticesBackendFloat32Size (pos v) of None \<Rightarrow> False | Some sz \<Rightarrow> sz < backend_len v)"

section \<open>float32 values\<close>

text \<open>
  Go's \<^verbatim>\<open>float32\<close> is IEEE 754 binary32. A value is not-a-number, one of the
  two infinities, or a finite rational. The two zeros are one value here: they
  are equal under every comparison of the language, and the only operation
  that tells them apart is a division by a negative zero, which this program
  never performs (each of its divisors is converted from an integer).
\<close>

datatype f32 = NaN | NInf | Fin rat | PInf

text \<open>The comparisons \<^verbatim>\<open><\<close>, \<^verbatim>\<open>==\<close> and \<^verbatim>\<open>!=\<close>; each is false on a NaN, but \<^verbatim>\<open>!=\<close>.\<close>

fun flt :: "f32 \<Rightarrow> f32 \<Rightarrow> bool" where
  "flt NaN _ = False"
| "flt _ NaN = False"
| "flt NInf NInf = False"
| "flt NInf _ = True"
| "flt (Fin a) (Fin b) = (a < b)"
| "flt (Fin a) PInf = True"
| "flt (Fin a) NInf = False"
| "flt PInf _ = False"

fun feq :: "f32 \<Rightarrow> f32 \<Rightarrow> bool" where
  "feq NaN _ = False"
| "feq _ NaN = False"
| "feq a b = (a = b)"

definition fne :: "f32 \<Rightarrow> f32 \<Rightarrow> bool" where
  "fne a b = (\<not> feq a b)"

text \<open>
  Rounding to nearest, ties to even. \<open>ilog2 q\<close> is the exponent \<open>e\<close> with
  \<open>2^e \<le> q < 2^(e+1)\<close> of a positive rational, found from the bit lengths of
  numerator and denominator. A binary32 value near \<open>q\<close> is a multiple of
  \<open>2^(e-23)\<close> (24 significant bits), and of \<open>2^(-149)\<close> at least (the
  subnormal numbers); a rounded magnitude of \<open>2^128\<close> or more is an infinity.
\<close>

definition ilog2 :: "rat \<Rightarrow> int" where
  "ilog2 q =
     (case quotient_of q of (a, b) \<Rightarrow>
        let d = bitlen a - bitlen b in
        if (if 0 \<le> d then b * 2 ^ nat d \<le> a else b \<le> a * 2 ^ nat (- d)) then d else d - 1)"

definition round_half_even :: "rat \<Rightarrow> int" where
  "round_half_even x =
     (let f = \<lfloor>x\<rfloor>; r = x - of_int f in
      if r < 1 / 2 then f else if 1 / 2 < r then f + 1 else if even f then f else f + 1)"

definition rnd32 :: "rat \<Rightarrow> f32" where
  "rnd32 q =
     (if q = 0 then Fin 0
      else
        let k = max (- 149) (ilog2 \<bar>q\<bar> - 23);
            u = 2 powi k;
            r = of_int (round_half_even (q / u)) * u
        in if 2 ^ 128 \<le> \<bar>r\<bar> then (if 0 < q then PInf else NInf) else Fin r)"

text \<open>The arithmetic the program uses: negation, sum, difference, quotient.\<close>

fun fneg :: "f32 \<Rightarrow> f32" where
  "fneg NaN = NaN"
| "fneg NInf = PInf"
| "fneg PInf = NInf"
| "fneg (Fin a) = Fin (- a)"

fun fadd :: "f32 \<Rightarrow> f32 \<Rightarrow> f32" where
  "fadd NaN _ = NaN"
| "fadd _ NaN = NaN"
| "fadd PInf NInf = NaN"
| "fadd NInf PInf = NaN"
| "fadd PInf _ = PInf"
| "fadd _ PInf = PInf"
| "fadd NInf _ = NInf"
| "fadd _ NInf = NInf"
| "fadd (Fin a) (Fin b) = rnd32 (a + b)"

definition fsub :: "f32 \<Rightarrow> f32 \<Rightarrow> f32" where
  "fsub a b = fadd a (fneg b)"

fun fdiv :: "f32 \<Rightarrow> f32 \<Rightarrow> f32" where
  "fdiv NaN _ = NaN"
| "fdiv _ NaN = NaN"
| "fdiv (Fin a) (Fin b) =
     (if b = 0 then (if a = 0 then NaN else if 0 < a then PInf else NInf) else rnd32 (a / b))"
| "fdiv (Fin a) _ = Fin 0"
| "fdiv PInf (Fin b) = (if 0 \<le> b then PInf else NInf)"
| "fdiv NInf (Fin b) = (if 0 \<le> b then NInf else PInf)"
| "fdiv _ _ = NaN"

text \<open>
  Conversions. \<^verbatim>\<open>float32(n)\<close> rounds the integer. \<^verbatim>\<open>int(x)\<close> drops the
  fraction (towards zero) when the result fits Go's 64-bit \<^verbatim>\<open>int\<close>; for any
  other \<open>x\<close> the language leaves the result to the implementation, which is
  \<open>None\<close> here.
\<close>

definition f32_of_int :: "int \<Rightarrow> f32" where
  "f32_of_int n = rnd32 (of_int n)"

definition f32_to_int :: "f32 \<Rightarrow> int option" where
  "f32_to_int x =
     (case x of
        Fin a \<Rightarrow>
          let t = (if 0 \<le> a then \<lfloor>a\<rfloor> else - \<lfloor>- a\<rfloor>) in
          if - (2 ^ 63) \<le> t \<and> t < 2 ^ 63 then Some t else None
      | _ \<Rightarrow> None)"

section \<open>Pixel adjustment (vertex.go)\<close>

text \<open>
  \<^verbatim>\<open>adjustDestinationPixel\<close>. The constants \<^verbatim>\<open>3.0/16.0\<close>, ... are exact
  constant expressions of Go whose values are binary32 numbers. The result is
  \<open>None\<close> where \<^verbatim>\<open>int(x)\<close> is not defined by the language.
\<close>

definition adjustDestinationPixel :: "f32 \<Rightarrow> f32 option" where
  "adjustDestinationPixel x =
     (case f32_to_int x of
        None \<Rightarrow> None
      | Some i \<Rightarrow>
          let ix0 = f32_of_int i;
              ix = (if flt x (Fin 0) \<and> fne x ix0 then fsub ix0 (Fin 1) else ix0);
              frac = fsub x ix
          in Some (if flt frac (Fin (3 / 16)) then ix
                   else if flt frac (Fin (8 / 16)) then fadd ix (Fin (5 / 16))
                   else if flt frac (Fin (13 / 16)) then fadd ix (Fin (11 / 16))
                   else fadd ix (Fin (16 / 16))))"

section \<open>Images, shaders and the collaborators outside this package\<close>

text \<open>
  \<^verbatim>\<open>*Image\<close> and \<^verbatim>\<open>*Shader\<close> are pointers: an address, 0 for nil. Go
  compares pointers by address. The array \<^verbatim>\<open>[4]*Image\<close> is a 4-tuple, and
  \<^verbatim>\<open>[3][2]float32\<close> a triple of pairs.
\<close>

type_synonym imagePtr = nat
type_synonym shaderPtr = nat
type_synonym u16 = "16 word"

definition nilPtr :: nat where
  "nilPtr = 0"

type_synonym srcImages = "imagePtr \<times> imagePtr \<times> imagePtr \<times> imagePtr"
type_synonym srcOffsets = "(f32 \<times> f32) \<times> (f32 \<times> f32) \<times> (f32 \<times> f32)"

definition srcs_list :: "srcImages \<Rightarrow> imagePtr list" where
  "srcs_list s = (case s of (a, b, c, d) \<Rightarrow> [a, b, c, d])"

definition offsets_list :: "srcOffsets \<Rightarrow> (f32 \<times> f32) list" where
  "offsets_list s = (case s of (a, b, c) \<Rightarrow> [a, b, c])"

text \<open>
  \<^verbatim>\<open>graphicsdriver.Blend\<close> (six byte-sized fields, named in \<^verbatim>\<open>String\<close>) and
  \<^verbatim>\<open>graphicsdriver.Region\<close> (four \<^verbatim>\<open>float32\<close> fields \<^verbatim>\<open>X\<close>, \<^verbatim>\<open>Y\<close>,
  \<^verbatim>\<open>Width\<close>, \<^verbatim>\<open>Height\<close>). Go compares structs field by field with \<^verbatim>\<open>==\<close>;
  for a region that is the comparison of floats.
\<close>

record Blend =
  BlendFactorSourceRGB :: nat
  BlendFactorSourceAlpha :: nat
  BlendFactorDestinationRGB :: nat
  BlendFactorDestinationAlpha :: nat
  BlendOperationRGB :: nat
  BlendOperationAlpha :: nat

record Region =
  RegionX :: f32
  RegionY :: f32
  RegionWidth :: f32
  RegionHeight :: f32

definition region_eq :: "Region \<Rightarrow> Region \<Rightarrow> bool" where
  "region_eq a b \<longleftrightarrow>
     feq (RegionX a) (RegionX b) \<and> feq (RegionY a) (RegionY b) \<and>
     feq (RegionWidth a) (RegionWidth b) \<and> feq (RegionHeight a) (RegionHeight b)"

text \<open>
  Two methods are called whose code is not in this package:
  \<^verbatim>\<open>(*Image).InternalSize\<close>, and \<^verbatim>\<open>shaderir.Program.FilterUniformVariables\<close>,
  which rewrites the uniform list it is given. Both are parameters of the
  model, with no assumption on what they compute.
\<close>

record env =
  InternalSize :: "imagePtr \<Rightarrow> int \<times> int"
  FilterUniformVariables :: "shaderPtr \<Rightarrow> f32 list list \<Rightarrow> f32 list list"

section \<open>Commands\<close>

record drawTrianglesCommand =
  c_dst :: imagePtr
  c_srcs :: srcImages
  c_vertices :: "f32 list"
  c_nindices :: nat
  c_blend :: Blend
  c_dstRegion :: Region
  c_shader :: shaderPtr
  c_uniforms :: "f32 list list"
  c_evenOdd :: bool

text \<open>
  The eight command types. For the commands other than draw-triangles the
  payload kept is what \<^verbatim>\<open>Exec\<close> passes on: \<^verbatim>\<open>writePixelsCommand\<close> has its
  destination and the number of its arguments.
\<close>

datatype command =
    DrawTrianglesCommand drawTrianglesCommand
  | WritePixelsCommand imagePtr nat
  | ReadPixelsCommand imagePtr int int int int
  | DisposeImageCommand imagePtr
  | DisposeShaderCommand shaderPtr
  | NewImageCommand imagePtr int int bool
  | NewShaderCommand shaderPtr
  | IsInvalidatedCommand imagePtr

definition numVertices :: "drawTrianglesCommand \<Rightarrow> nat" where
  "numVertices c = length (c_vertices c)"

definition numIndices :: "drawTrianglesCommand \<Rightarrow> nat" where
  "numIndices c = c_nindices c"

definition setVertices :: "drawTrianglesCommand \<Rightarrow> f32 list \<Rightarrow> drawTrianglesCommand" where
  "setVertices c vs = c\<lparr>c_vertices := vs\<rparr>"

definition addNumIndices :: "drawTrianglesCommand \<Rightarrow> nat \<Rightarrow> drawTrianglesCommand" where
  "addNumIndices c n = c\<lparr>c_nindices := c_nindices c + n\<rparr>"

subsection \<open>The merge test\<close>

text \<open>
  \<^verbatim>\<open>dstRegionFromVertices\<close>: the loop over \<open>i < len(vertices) / 8\<close> reading
  \<open>vertices[8 i]\<close> and \<open>vertices[8 i + 1]\<close>.
\<close>

definition posInf32 :: f32 where
  "posInf32 = PInf"

definition negInf32 :: f32 where
  "negInf32 = NInf"

definition dstRegionStep :: "f32 list \<Rightarrow> nat \<Rightarrow> f32 \<times> f32 \<times> f32 \<times> f32 \<Rightarrow> f32 \<times> f32 \<times> f32 \<times> f32" where
  "dstRegionStep vs i b =
     (case b of (minX, minY, maxX, maxY) \<Rightarrow>
        let x = vs ! (VertexFloatCount * i);
            y = vs ! (VertexFloatCount * i + 1)
        in (if flt x minX then x else minX,
            if flt y minY then y else minY,
            if flt maxX x then x else maxX,
            if flt maxY y then y else maxY))"

definition dstRegionFromVertices :: "f32 list \<Rightarrow> f32 \<times> f32 \<times> f32 \<times> f32" where
  "dstRegionFromVertices vs =
     fold (dstRegionStep vs) [0..<length vs div VertexFloatCount]
       (posInf32, posInf32, negInf32, negInf32)"

definition mergin :: f32 where
  "mergin = Fin 1"

definition mightOverlapDstRegions :: "f32 list \<Rightarrow> f32 list \<Rightarrow> bool" where
  "mightOverlapDstRegions vertices1 vertices2 =
     (case dstRegionFromVertices vertices1 of (minX1, minY1, maxX1, maxY1) \<Rightarrow>
      case dstRegionFromVertices vertices2 of (minX2, minY2, maxX2, maxY2) \<Rightarrow>
        flt minX1 (fadd maxX2 mergin) \<and> flt minX2 (fadd maxX1 mergin) \<and>
        flt minY1 (fadd maxY2 mergin) \<and> flt minY2 (fadd maxY1 mergin))"

text \<open>
  The loop of \<^verbatim>\<open>CanMergeWithDrawTrianglesCommand\<close> over the uniforms, which
  leaves with false at the first entry whose length differs or whose scalar
  differs under \<^verbatim>\<open>!=\<close>. It runs after the two lists were found of equal
  length.
\<close>

definition uniforms_loop :: "f32 list list \<Rightarrow> f32 list list \<Rightarrow> bool" where
  "uniforms_loop cu u =
     list_all
       (\<lambda>i. length (cu ! i) = length (u ! i) \<and>
            list_all (\<lambda>j. \<not> fne (cu ! i ! j) (u ! i ! j)) [0..<length (cu ! i)])
       [0..<length cu]"

definition CanMergeWithDrawTrianglesCommand ::
  "drawTrianglesCommand \<Rightarrow> imagePtr \<Rightarrow> srcImages \<Rightarrow> f32 list \<Rightarrow> Blend \<Rightarrow> Region \<Rightarrow> shaderPtr
     \<Rightarrow> f32 list list \<Rightarrow> bool \<Rightarrow> bool" where
  "CanMergeWithDrawTrianglesCommand c dst srcs vertices blend dstRegion shader uniforms evenOdd =
     (if c_shader c \<noteq> shader then False
      else if length (c_uniforms c) \<noteq> length uniforms then False
      else if \<not> uniforms_loop (c_uniforms c) uniforms then False
      else if c_dst c \<noteq> dst then False
      else if c_srcs c \<noteq> srcs then False
      else if c_blend c \<noteq> blend then False
      else if \<not> region_eq (c_dstRegion c) dstRegion then False
      else if c_evenOdd c \<or> evenOdd then
        (if c_evenOdd c \<and> evenOdd
         then \<not> mightOverlapDstRegions (c_vertices c) vertices
         else False)
      else True)"

section \<open>The graphics driver\<close>

text \<open>
  The driver is an interface. What the queue does to it is the sequence of
  calls it makes; what the driver does to the queue is the error (or nil) each
  call returns. A driver is therefore a function from the calls made so far,
  the current one last, to the answer of the current one: any deterministic
  driver, whatever its state, is such a function. The calls on a driver image
  (\<^verbatim>\<open>WritePixels\<close>, \<^verbatim>\<open>ReadPixels\<close>, \<^verbatim>\<open>Dispose\<close>, \<^verbatim>\<open>IsInvalidated\<close>) are
  calls into the driver too. An image or shader is named in a call by its
  pointer, which stands for the identifier the code reads from it.
\<close>

datatype event =
    EvBegin
  | EvEnd bool
  | EvSetVertices "f32 list" "u16 list"
  | EvDrawTriangles imagePtr srcImages shaderPtr nat nat Blend Region "f32 list list" bool
  | EvWritePixels imagePtr nat
  | EvReadPixels imagePtr int int int int
  | EvDisposeImage imagePtr
  | EvDisposeShader shaderPtr
  | EvNewImage int int
  | EvNewScreenFramebufferImage int int
  | EvNewShader shaderPtr
  | EvIsInvalidated imagePtr

type_synonym 'e driver = "event list \<Rightarrow> 'e option"

definition call :: "'e driver \<Rightarrow> event list \<Rightarrow> event \<Rightarrow> 'e option \<times> event list" where
  "call drv tr ev = (drv (tr @ [ev]), tr @ [ev])"

text \<open>\<^verbatim>\<open>Exec\<close> of each command type, given the running index offset.\<close>

fun Exec :: "'e driver \<Rightarrow> command \<Rightarrow> nat \<Rightarrow> event list \<Rightarrow> 'e option \<times> event list" where
  "Exec drv (DrawTrianglesCommand c) indexOffset tr =
     (if c_nindices c = 0 then (None, tr)
      else call drv tr
             (EvDrawTriangles (c_dst c) (c_srcs c) (c_shader c) (c_nindices c) indexOffset
                (c_blend c) (c_dstRegion c) (c_uniforms c) (c_evenOdd c)))"
| "Exec drv (WritePixelsCommand dst nargs) indexOffset tr =
     (if nargs = 0 then (None, tr) else call drv tr (EvWritePixels dst nargs))"
| "Exec drv (ReadPixelsCommand img x y w h) indexOffset tr =
     call drv tr (EvReadPixels img x y w h)"
| "Exec drv (DisposeImageCommand target) indexOffset tr =
     (None, snd (call drv tr (EvDisposeImage target)))"
| "Exec drv (DisposeShaderCommand target) indexOffset tr =
     (None, snd (call drv tr (EvDisposeShader target)))"
| "Exec drv (NewImageCommand result w h screen) indexOffset tr =
     (if screen then call drv tr (EvNewScreenFramebufferImage w h)
      else call drv tr (EvNewImage w h))"
| "Exec drv (NewShaderCommand result) indexOffset tr =
     call drv tr (EvNewShader result)"
| "Exec drv (IsInvalidatedCommand img) indexOffset tr =
     (None, snd (call drv tr (EvIsInvalidated img)))"

section \<open>The command queue\<close>

text \<open>
  \<^verbatim>\<open>float32sBuffer\<close> is a slice whose capacity matters: \<open>fb_data\<close> is the
  whole backing array (its length is the capacity) and \<open>fb_len\<close> the length of
  the slice. The other slices of the queue are only appended to and cut to
  length zero, so their contents up to their length are all there is to them.
\<close>

record floatBuffer =
  fb_data :: "f32 list"
  fb_len :: nat

record commandQueue =
  commands :: "command list"
  vertices :: "f32 list"
  indices :: "u16 list"
  tmpNumVertexFloats :: nat
  tmpNumIndices :: nat
  drawTrianglesCommandPool :: "drawTrianglesCommand list"
  float32sBuffer :: floatBuffer

definition theCommandQueue :: commandQueue where
  "theCommandQueue =
     \<lparr>commands = [], vertices = [], indices = [], tmpNumVertexFloats = 0, tmpNumIndices = 0,
      drawTrianglesCommandPool = [], float32sBuffer = \<lparr>fb_data = [], fb_len = 0\<rparr>\<rparr>"

subsection \<open>The pool of draw-triangles commands\<close>

definition zeroRegion :: Region where
  "zeroRegion = \<lparr>RegionX = Fin 0, RegionY = Fin 0, RegionWidth = Fin 0, RegionHeight = Fin 0\<rparr>"

definition zeroBlend :: Blend where
  "zeroBlend =
     \<lparr>BlendFactorSourceRGB = 0, BlendFactorSourceAlpha = 0, BlendFactorDestinationRGB = 0,
      BlendFactorDestinationAlpha = 0, BlendOperationRGB = 0, BlendOperationAlpha = 0\<rparr>"

definition zeroCommand :: drawTrianglesCommand where
  "zeroCommand =
     \<lparr>c_dst = nilPtr, c_srcs = (nilPtr, nilPtr, nilPtr, nilPtr), c_vertices = [], c_nindices = 0,
      c_blend = zeroBlend, c_dstRegion = zeroRegion, c_shader = nilPtr, c_uniforms = [],
      c_evenOdd = False\<rparr>"

definition pool_get :: "drawTrianglesCommand list \<Rightarrow> drawTrianglesCommand \<times> drawTrianglesCommand list" where
  "pool_get p = (if length p = 0 then (zeroCommand, p) else (last p, butlast p))"

definition pool_put :: "drawTrianglesCommand list \<Rightarrow> drawTrianglesCommand \<Rightarrow> drawTrianglesCommand list" where
  "pool_put p v = (if length p \<ge> 1024 then p else p @ [v])"

subsection \<open>The arena of floats for the uniforms\<close>

text \<open>\<^verbatim>\<open>p2 := 1; for p2 < x { p2 *= 2 }; return p2\<close>.\<close>

partial_function (option) roundUpPower2Loop :: "nat \<Rightarrow> nat \<Rightarrow> nat option" where
  "roundUpPower2Loop p2 x = (if p2 < x then roundUpPower2Loop (p2 * 2) x else Some p2)"

declare roundUpPower2Loop.simps [code]

definition roundUpPower2 :: "nat \<Rightarrow> nat option" where
  "roundUpPower2 x = roundUpPower2Loop 1 x"

text \<open>
  \<^verbatim>\<open>allocFloat32s(n)\<close> returns a window of \<open>n\<close> floats of the buffer: the
  model returns the index where the window starts. When the buffer has room,
  the window is the part of the backing array right after the current length,
  with whatever that part holds; otherwise the buffer is a new array of zeros
  and the window its first \<open>n\<close> floats.
\<close>

definition allocFloat32s :: "commandQueue \<Rightarrow> nat \<Rightarrow> (nat \<times> commandQueue) outcome" where
  "allocFloat32s q n =
     (let buf = float32sBuffer q in
      if fb_len buf + n > length (fb_data buf) then
        (case roundUpPower2 (fb_len buf + n) of
           None \<Rightarrow> Hang
         | Some p \<Rightarrow>
             Return (0, q\<lparr>float32sBuffer := \<lparr>fb_data = replicate (max p 16) (Fin 0), fb_len = n\<rparr>\<rparr>))
      else Return (fb_len buf, q\<lparr>float32sBuffer := buf\<lparr>fb_len := fb_len buf + n\<rparr>\<rparr>))"

text \<open>
  An assignment \<^verbatim>\<open>s[i] = v\<close> through a window \<open>s\<close> starting at \<open>off\<close> writes
  the backing array; \<open>window\<close> reads a window back. A uniform is the contents
  of its window once the assignments to it are done: no later assignment of
  a frame reaches a window handed out earlier in that frame.
\<close>

definition setFloat :: "commandQueue \<Rightarrow> nat \<Rightarrow> nat \<Rightarrow> f32 \<Rightarrow> commandQueue" where
  "setFloat q off i v =
     q\<lparr>float32sBuffer :=
          (float32sBuffer q)\<lparr>fb_data := (fb_data (float32sBuffer q))[off + i := v]\<rparr>\<rparr>"

fun setFloats :: "commandQueue \<Rightarrow> nat \<Rightarrow> nat \<Rightarrow> f32 list \<Rightarrow> commandQueue" where
  "setFloats q off i [] = q"
| "setFloats q off i (v # vs) = setFloats (setFloat q off i v) off (Suc i) vs"

definition window :: "commandQueue \<Rightarrow> nat \<Rightarrow> nat \<Rightarrow> f32 list" where
  "window q off n = take n (drop off (fb_data (float32sBuffer q)))"

definition obind :: "'a outcome \<Rightarrow> ('a \<Rightarrow> 'b outcome) \<Rightarrow> 'b outcome" where
  "obind m f = (case m of Return a \<Rightarrow> f a | Panic \<Rightarrow> Panic | Hang \<Rightarrow> Hang)"

subsection \<open>The preserved uniforms\<close>

text \<open>
  The loop \<^verbatim>\<open>for i, src := range srcs\<close> that writes the size of each source
  that is not nil into \<open>usizes[2 i]\<close> and \<open>usizes[2 i + 1]\<close>, and writes nothing
  for a nil source.
\<close>

fun setSourceSizes :: "env \<Rightarrow> imagePtr list \<Rightarrow> nat \<Rightarrow> nat \<Rightarrow> commandQueue \<Rightarrow> commandQueue" where
  "setSourceSizes e [] i off q = q"
| "setSourceSizes e (src # rest) i off q =
     setSourceSizes e rest (Suc i) off
       (if src \<noteq> nilPtr
        then (case InternalSize e src of (w, h) \<Rightarrow>
                setFloat (setFloat q off (2 * i) (f32_of_int w)) off (2 * i + 1) (f32_of_int h))
        else q)"

fun setOffsets :: "(f32 \<times> f32) list \<Rightarrow> nat \<Rightarrow> nat \<Rightarrow> commandQueue \<Rightarrow> commandQueue" where
  "setOffsets [] i off q = q"
| "setOffsets (offset # rest) i off q =
     setOffsets rest (Suc i) off
       (setFloat (setFloat q off (2 * i) (fst offset)) off (2 * i + 1) (snd offset))"

definition TextureDestinationSizeUniformVariableIndex :: nat where
  "TextureDestinationSizeUniformVariableIndex = 0"
definition TextureSourceSizesUniformVariableIndex :: nat where
  "TextureSourceSizesUniformVariableIndex = 1"
definition TextureDestinationRegionOriginUniformVariableIndex :: nat where
  "TextureDestinationRegionOriginUniformVariableIndex = 2"
definition TextureDestinationRegionSizeUniformVariableIndex :: nat where
  "TextureDestinationRegionSizeUniformVariableIndex = 3"
definition TextureSourceOffsetsUniformVariableIndex :: nat where
  "TextureSourceOffsetsUniformVariableIndex = 4"
definition TextureSourceRegionOriginUniformVariableIndex :: nat where
  "TextureSourceRegionOriginUniformVariableIndex = 5"
definition TextureSourceRegionSizeUniformVariableIndex :: nat where
  "TextureSourceRegionSizeUniformVariableIndex = 6"
definition ProjectionMatrixUniformVariableIndex :: nat where
  "ProjectionMatrixUniformVariableIndex = 7"

text \<open>
  The first two statements of \<^verbatim>\<open>prependPreservedUniforms\<close>: eight nil entries
  are appended, then \<^verbatim>\<open>copy(uniforms[8:], uniforms)\<close> moves as many entries
  as the target holds from the front of the list to index 8 onwards.
\<close>

definition shiftUniforms :: "f32 list list \<Rightarrow> f32 list list" where
  "shiftUniforms uniforms =
     (let u = uniforms @ replicate PreservedUniformVariablesCount [] in
      take PreservedUniformVariablesCount u @
      take (length u - PreservedUniformVariablesCount) u)"

text \<open>
  When \<open>srcs[0]\<close> is not nil, the source region and the offsets (both local
  copies) are divided by its size.
\<close>

definition scaleRegion :: "env \<Rightarrow> imagePtr \<Rightarrow> Region \<Rightarrow> Region" where
  "scaleRegion e src0 r =
     (if src0 \<noteq> nilPtr
      then (case InternalSize e src0 of (w, h) \<Rightarrow>
              \<lparr>RegionX = fdiv (RegionX r) (f32_of_int w), RegionY = fdiv (RegionY r) (f32_of_int h),
               RegionWidth = fdiv (RegionWidth r) (f32_of_int w),
               RegionHeight = fdiv (RegionHeight r) (f32_of_int h)\<rparr>)
      else r)"

definition scaleOffsets :: "env \<Rightarrow> imagePtr \<Rightarrow> (f32 \<times> f32) list \<Rightarrow> (f32 \<times> f32) list" where
  "scaleOffsets e src0 offs =
     (if src0 \<noteq> nilPtr
      then (case InternalSize e src0 of (w, h) \<Rightarrow>
              map (\<lambda>p. (fdiv (fst p) (f32_of_int w), fdiv (snd p) (f32_of_int h))) offs)
      else offs)"

text \<open>
  \<^verbatim>\<open>prependPreservedUniforms\<close> is eight blocks of one shape, one for each
  preserved uniform: a window of \<open>n\<close> floats is taken from the arena, its
  floats are assigned, and the window becomes the uniform at a fixed index.
  \<open>fill\<close> is the assignments of a block, given where its window starts.
\<close>

definition uniformBlock ::
  "commandQueue \<Rightarrow> f32 list list \<Rightarrow> nat \<Rightarrow> nat \<Rightarrow> (nat \<Rightarrow> commandQueue \<Rightarrow> commandQueue)
     \<Rightarrow> (f32 list list \<times> commandQueue) outcome" where
  "uniformBlock q u idx n fill =
     obind (allocFloat32s q n) (\<lambda>(off, q1).
       Return (u[idx := window (fill off q1) off n], fill off q1))"

definition prependPreservedUniforms ::
  "env \<Rightarrow> commandQueue \<Rightarrow> f32 list list \<Rightarrow> imagePtr \<Rightarrow> srcImages \<Rightarrow> srcOffsets \<Rightarrow> Region \<Rightarrow> Region
     \<Rightarrow> (f32 list list \<times> commandQueue) outcome" where
  "prependPreservedUniforms e q uniforms dst srcs offsets dstRegion srcRegion0 =
     (if dst = nilPtr then Panic
      else case InternalSize e dst of (dw, dh) \<Rightarrow>
      obind (uniformBlock q (shiftUniforms uniforms) TextureDestinationSizeUniformVariableIndex 2
               (\<lambda>udstsize q.
                  setFloat (setFloat q udstsize 0 (f32_of_int dw)) udstsize 1 (f32_of_int dh)))
        (\<lambda>(u, q).
      obind (uniformBlock q u TextureSourceSizesUniformVariableIndex (2 * length (srcs_list srcs))
               (\<lambda>usizes q. setSourceSizes e (srcs_list srcs) 0 usizes q))
        (\<lambda>(u, q).
      obind (uniformBlock q u TextureDestinationRegionOriginUniformVariableIndex 2
               (\<lambda>udstrorig q.
                  setFloat (setFloat q udstrorig 0 (fdiv (RegionX dstRegion) (f32_of_int dw)))
                    udstrorig 1 (fdiv (RegionY dstRegion) (f32_of_int dh))))
        (\<lambda>(u, q).
      obind (uniformBlock q u TextureDestinationRegionSizeUniformVariableIndex 2
               (\<lambda>udstrsize q.
                  setFloat (setFloat q udstrsize 0 (fdiv (RegionWidth dstRegion) (f32_of_int dw)))
                    udstrsize 1 (fdiv (RegionHeight dstRegion) (f32_of_int dh))))
        (\<lambda>(u, q).
      obind (uniformBlock q u TextureSourceOffsetsUniformVariableIndex
               (2 * length (scaleOffsets e (fst srcs) (offsets_list offsets)))
               (\<lambda>uoffsets q. setOffsets (scaleOffsets e (fst srcs) (offsets_list offsets)) 0 uoffsets q))
        (\<lambda>(u, q).
      obind (uniformBlock q u TextureSourceRegionOriginUniformVariableIndex 2
               (\<lambda>usrcrorig q.
                  setFloat (setFloat q usrcrorig 0 (RegionX (scaleRegion e (fst srcs) srcRegion0)))
                    usrcrorig 1 (RegionY (scaleRegion e (fst srcs) srcRegion0))))
        (\<lambda>(u, q).
      obind (uniformBlock q u TextureSourceRegionSizeUniformVariableIndex 2
               (\<lambda>usrcrsize q.
                  setFloat (setFloat q usrcrsize 0 (RegionWidth (scaleRegion e (fst srcs) srcRegion0)))
                    usrcrsize 1 (RegionHeight (scaleRegion e (fst srcs) srcRegion0))))
        (\<lambda>(u, q).
      uniformBlock q u ProjectionMatrixUniformVariableIndex 16
        (\<lambda>umatrix q.
           setFloats q umatrix 0
             [fdiv (Fin 2) (f32_of_int dw), Fin 0, Fin 0, Fin 0,
              Fin 0, fdiv (Fin 2) (f32_of_int dh), Fin 0, Fin 0,
              Fin 0, Fin 0, Fin 1, Fin 0,
              Fin (- 1), Fin (- 1), Fin 0, Fin 1])))))))))"

subsection \<open>Enqueueing\<close>

text \<open>
  \<^verbatim>\<open>appendIndices\<close>: the indices are appended, then \<open>offset\<close> is added in
  place to each appended entry. The sum is a sum of \<^verbatim>\<open>uint16\<close> and wraps.
\<close>

definition appendIndices :: "commandQueue \<Rightarrow> u16 list \<Rightarrow> u16 \<Rightarrow> commandQueue" where
  "appendIndices q is offset =
     (let n = length (indices q);
          q1 = q\<lparr>indices := indices q @ is\<rparr>
      in fold (\<lambda>i q'. q'\<lparr>indices := (indices q')[n + i := indices q' ! (n + i) + offset]\<rparr>)
           [0..<length is] q1)"

definition mustUseDifferentVertexBuffer :: "nat \<Rightarrow> nat \<Rightarrow> bool" where
  "mustUseDifferentVertexBuffer nextNumVertexFloats nextNumIndices \<longleftrightarrow>
     nextNumVertexFloats > IndicesCount * VertexFloatCount \<or> nextNumIndices > IndicesCount"

text \<open>\<^verbatim>\<open>q.vertices[len(q.vertices)-n : len(q.vertices)]\<close> panics on a negative bound.\<close>

definition lastVertices :: "commandQueue \<Rightarrow> nat \<Rightarrow> f32 list outcome" where
  "lastVertices q n =
     (if n > length (vertices q) then Panic
      else Return (drop (length (vertices q) - n) (vertices q)))"

text \<open>The arguments of one call of \<^verbatim>\<open>EnqueueDrawTrianglesCommand\<close>.\<close>

record drawArgs =
  a_dst :: imagePtr
  a_srcs :: srcImages
  a_offsets :: srcOffsets
  a_vertices :: "f32 list"
  a_indices :: "u16 list"
  a_blend :: Blend
  a_dstRegion :: Region
  a_srcRegion :: Region
  a_shader :: shaderPtr
  a_uniforms :: "f32 list list"
  a_evenOdd :: bool

text \<open>
  The tail of \<^verbatim>\<open>EnqueueDrawTrianglesCommand\<close>: a command is taken from the
  pool, all of its nine fields are assigned, and it is appended.
\<close>

definition enqueueNew :: "commandQueue \<Rightarrow> drawArgs \<Rightarrow> f32 list list \<Rightarrow> commandQueue outcome" where
  "enqueueNew q a uniforms =
     (case pool_get (drawTrianglesCommandPool q) of (c, pool) \<Rightarrow>
      obind (lastVertices q (length (a_vertices a))) (\<lambda>vs.
        Return (q\<lparr>drawTrianglesCommandPool := pool,
                  commands := commands q @
                    [DrawTrianglesCommand
                       (c\<lparr>c_dst := a_dst a, c_srcs := a_srcs a, c_vertices := vs,
                          c_nindices := length (a_indices a), c_blend := a_blend a,
                          c_dstRegion := a_dstRegion a, c_shader := a_shader a,
                          c_uniforms := uniforms, c_evenOdd := a_evenOdd a\<rparr>)]\<rparr>)))"

text \<open>
  \<^verbatim>\<open>EnqueueDrawTrianglesCommand\<close> in three parts. First the statements that
  close the chunk when \<open>split\<close> is set, append the vertices and the indices
  (rebased by the number of vertices of the chunk so far, as a \<^verbatim>\<open>uint16\<close>)
  and add to the two counters.
\<close>

definition enqueueAppend :: "commandQueue \<Rightarrow> drawArgs \<Rightarrow> bool \<Rightarrow> commandQueue" where
  "enqueueAppend q0 a split =
     (let q = (if split then q0\<lparr>tmpNumVertexFloats := 0, tmpNumIndices := 0\<rparr> else q0);
          q = q\<lparr>vertices := vertices q @ a_vertices a\<rparr>;
          q = appendIndices q (a_indices a)
                (of_nat (tmpNumVertexFloats q div VertexFloatCount));
          q = q\<lparr>tmpNumVertexFloats := tmpNumVertexFloats q + length (a_vertices a)\<rparr>
      in q\<lparr>tmpNumIndices := tmpNumIndices q + length (a_indices a)\<rparr>)"

text \<open>
  Last the statements from \<^verbatim>\<open>if !split && 0 < len(q.commands)\<close> on: the
  draw is merged into the last command when that is a draw-triangles command
  and the merge test passes, and becomes a command of its own otherwise.
\<close>

definition enqueueCommand ::
  "commandQueue \<Rightarrow> drawArgs \<Rightarrow> bool \<Rightarrow> f32 list list \<Rightarrow> commandQueue outcome" where
  "enqueueCommand q a split uniforms =
     (if \<not> split \<and> 0 < length (commands q) then
        (case last (commands q) of
           DrawTrianglesCommand lastc \<Rightarrow>
             if CanMergeWithDrawTrianglesCommand lastc (a_dst a) (a_srcs a) (a_vertices a)
                  (a_blend a) (a_dstRegion a) (a_shader a) uniforms (a_evenOdd a)
             then
               obind (lastVertices q (length (a_vertices a) + numVertices lastc)) (\<lambda>vs.
                 Return (q\<lparr>commands := butlast (commands q) @
                             [DrawTrianglesCommand
                                (addNumIndices (setVertices lastc vs) (length (a_indices a)))]\<rparr>))
             else enqueueNew q a uniforms
         | _ \<Rightarrow> enqueueNew q a uniforms)
      else enqueueNew q a uniforms)"

text \<open>
  In between, the uniforms are built and filtered. A nil \<open>dst\<close> or \<open>shader\<close>
  is a nil dereference, which panics.
\<close>

definition EnqueueDrawTrianglesCommand :: "env \<Rightarrow> commandQueue \<Rightarrow> drawArgs \<Rightarrow> commandQueue outcome" where
  "EnqueueDrawTrianglesCommand e q a =
     (if length (a_indices a) > IndicesCount then Panic
      else
        let split = mustUseDifferentVertexBuffer
                      (tmpNumVertexFloats q + length (a_vertices a))
                      (tmpNumIndices q + length (a_indices a))
        in
        obind (prependPreservedUniforms e (enqueueAppend q a split) (a_uniforms a) (a_dst a)
                 (a_srcs a) (a_offsets a) (a_dstRegion a) (a_srcRegion a)) (\<lambda>(uniforms0, q1).
        if a_shader a = nilPtr then Panic
        else enqueueCommand q1 a split (FilterUniformVariables e (a_shader a) uniforms0)))"

definition Enqueue :: "commandQueue \<Rightarrow> command \<Rightarrow> commandQueue" where
  "Enqueue q c = q\<lparr>commands := commands q @ [c]\<rparr>"

subsection \<open>Flushing\<close>

text \<open>
  The inner loop of \<^verbatim>\<open>flush\<close> over \<open>cs\<close>, which counts the vertex floats
  \<open>nv\<close>, the indices \<open>ne\<close> and the commands \<open>nc\<close> of the next chunk. It panics
  on a command with too many indices, and leaves at the first draw-triangles
  command that does not fit unless it is the first command of the chunk.
\<close>

fun chunk_scan :: "command list \<Rightarrow> nat \<Rightarrow> nat \<Rightarrow> nat \<Rightarrow> (nat \<times> nat \<times> nat) outcome" where
  "chunk_scan [] nv ne nc = Return (nv, ne, nc)"
| "chunk_scan (DrawTrianglesCommand dtc # cs) nv ne nc =
     (if numIndices dtc > IndicesCount then Panic
      else if nc > 0 \<and> mustUseDifferentVertexBuffer (nv + numVertices dtc) (ne + numIndices dtc)
      then Return (nv, ne, nc)
      else chunk_scan cs (nv + numVertices dtc) (ne + numIndices dtc) (nc + 1))"
| "chunk_scan (c # cs) nv ne nc = chunk_scan cs nv ne (nc + 1)"

text \<open>The loop that executes the commands of a chunk, up to the first error.\<close>

fun exec_chunk :: "'e driver \<Rightarrow> command list \<Rightarrow> nat \<Rightarrow> event list \<Rightarrow> 'e option \<times> event list" where
  "exec_chunk drv [] indexOffset tr = (None, tr)"
| "exec_chunk drv (c # cs) indexOffset tr =
     (case Exec drv c indexOffset tr of
        (Some err, tr1) \<Rightarrow> (Some err, tr1)
      | (None, tr1) \<Rightarrow>
          exec_chunk drv cs
            (case c of DrawTrianglesCommand dtc \<Rightarrow> indexOffset + numIndices dtc | _ \<Rightarrow> indexOffset)
            tr1)"

text \<open>
  One round of the outer loop \<^verbatim>\<open>for len(cs) > 0\<close>: the chunk is measured,
  its vertices and indices are uploaded when it has an index, and its
  commands are executed. The round ends the function (an error is returned,
  or a panic), or it goes on with the commands, vertices and indices that are
  left. The slices \<open>vs\<close> and \<open>es\<close> move on only when the upload was made. A
  window \<open>vs[:nv]\<close> that reaches past the length of \<open>vs\<close> is a panic here: the
  model keeps no capacity for the vertices and indices (with spare capacity Go
  would upload what the array holds there). The queue never gets there, see
  \<open>flush_loop_uploads\<close> below.
\<close>

datatype 'e round = Stop "'e option outcome" "event list" | Next "command list" "f32 list" "u16 list" "event list"

definition flush_round ::
  "'e driver \<Rightarrow> command list \<Rightarrow> f32 list \<Rightarrow> u16 list \<Rightarrow> event list \<Rightarrow> 'e round" where
  "flush_round drv cs vs es tr =
     (case chunk_scan cs 0 0 0 of
        Panic \<Rightarrow> Stop Panic tr
      | Hang \<Rightarrow> Stop Hang tr
      | Return (nv, ne, nc) \<Rightarrow>
          (case (if 0 < ne
                 then (if nv > length vs \<or> ne > length es then Stop Panic tr
                       else (case call drv tr (EvSetVertices (take nv vs) (take ne es)) of
                               (Some err, tr1) \<Rightarrow> Stop (Return (Some err)) tr1
                             | (None, tr1) \<Rightarrow> Next cs (drop nv vs) (drop ne es) tr1))
                 else Next cs vs es tr) of
             Stop r tr1 \<Rightarrow> Stop r tr1
           | Next cs1 vs1 es1 tr1 \<Rightarrow>
               (case exec_chunk drv (take nc cs) 0 tr1 of
                  (Some err, tr2) \<Rightarrow> Stop (Return (Some err)) tr2
                | (None, tr2) \<Rightarrow> Next (drop nc cs) vs1 es1 tr2)))"

lemma chunk_scan_count:
  "chunk_scan cs nv ne nc = Return (nv', ne', nc') \<Longrightarrow>
     nc \<le> nc' \<and> nc' \<le> nc + length cs \<and> (cs \<noteq> [] \<and> nc = 0 \<longrightarrow> 0 < nc')"
proof (induction cs nv ne nc rule: chunk_scan.induct)
  case (1 nv ne nc)
  then show ?case by simp
next
  case (2 dtc cs nv ne nc)
  then show ?case by (auto split: if_splits)
qed auto

lemma flush_round_shorter:
  assumes "cs \<noteq> []" and "flush_round drv cs vs es tr = Next cs1 vs1 es1 tr1"
  shows "length cs1 < length cs"
proof -
  from assms(2) obtain nv ne nc where s: "chunk_scan cs 0 0 0 = Return (nv, ne, nc)"
    by (cases "chunk_scan cs 0 0 0") (auto simp: flush_round_def)
  from chunk_scan_count[OF s] assms(1) have "0 < nc" by simp
  moreover from assms(2) s have "cs1 = drop nc cs"
    by (auto simp: flush_round_def split: if_splits prod.splits option.splits round.splits)
  ultimately show ?thesis using assms(1) by simp
qed

text \<open>The outer loop \<^verbatim>\<open>for len(cs) > 0\<close> of \<^verbatim>\<open>flush\<close>.\<close>

function flush_loop ::
  "'e driver \<Rightarrow> command list \<Rightarrow> f32 list \<Rightarrow> u16 list \<Rightarrow> event list \<Rightarrow> 'e option outcome \<times> event list" where
  "flush_loop drv cs vs es tr =
     (if cs = [] then (Return None, tr)
      else (case flush_round drv cs vs es tr of
              Stop r tr1 \<Rightarrow> (r, tr1)
            | Next cs1 vs1 es1 tr1 \<Rightarrow> flush_loop drv cs1 vs1 es1 tr1))"
  by pat_completeness auto
termination
  by (relation "measure (\<lambda>(drv, cs, vs, es, tr). length cs)")
     (auto dest: flush_round_shorter)

declare flush_loop.simps [simp del]

text \<open>
  The deferred function of \<^verbatim>\<open>flush\<close>. It runs when the function returns and
  also when it panics: \<^verbatim>\<open>End\<close> is called, and its error becomes the result
  when there is none yet; the draw-triangles commands go back to the pool; the
  queue is emptied.
\<close>

definition flush_deferred ::
  "'e driver \<Rightarrow> commandQueue \<Rightarrow> bool \<Rightarrow> 'e option outcome \<Rightarrow> event list
     \<Rightarrow> 'e option outcome \<times> commandQueue \<times> event list" where
  "flush_deferred drv q endFrame res tr =
     (case call drv tr (EvEnd endFrame) of (err1, tr1) \<Rightarrow>
        (case res of
           Return err \<Rightarrow> Return (if err1 \<noteq> None \<and> err = None then err1 else err)
         | Panic \<Rightarrow> Panic
         | Hang \<Rightarrow> Hang,
         q\<lparr>drawTrianglesCommandPool :=
              fold (\<lambda>c p. case c of DrawTrianglesCommand d \<Rightarrow> pool_put p d | _ \<Rightarrow> p)
                (commands q) (drawTrianglesCommandPool q),
           commands := [], vertices := [], indices := [],
           tmpNumVertexFloats := 0, tmpNumIndices := 0\<rparr>,
         tr1))"

definition flush ::
  "'e driver \<Rightarrow> commandQueue \<Rightarrow> bool \<Rightarrow> event list \<Rightarrow> 'e option outcome \<times> commandQueue \<times> event list" where
  "flush drv q endFrame tr =
     (if length (commands q) = 0 \<and> \<not> endFrame then (Return None, q, tr)
      else (case call drv tr EvBegin of
              (Some err, tr1) \<Rightarrow> (Return (Some err), q, tr1)
            | (None, tr1) \<Rightarrow>
                (case flush_loop drv (commands q) (vertices q) (indices q) tr1 of
                   (Hang, tr2) \<Rightarrow> (Hang, q, tr2)
                 | (res, tr2) \<Rightarrow> flush_deferred drv q endFrame res tr2)))"

text \<open>
  \<^verbatim>\<open>Flush\<close> runs \<^verbatim>\<open>flush\<close> on the rendering thread and waits for it; at the
  end of a frame it then cuts the arena of floats to length zero, keeping the
  backing array and what it holds.
\<close>

definition Flush ::
  "'e driver \<Rightarrow> commandQueue \<Rightarrow> bool \<Rightarrow> event list \<Rightarrow> 'e option outcome \<times> commandQueue \<times> event list" where
  "Flush drv q endFrame tr =
     (case flush drv q endFrame tr of
        (Return err, q1, tr1) \<Rightarrow>
          (Return err,
           if endFrame then q1\<lparr>float32sBuffer := (float32sBuffer q1)\<lparr>fb_len := 0\<rparr>\<rparr> else q1,
           tr1)
      | (res, q1, tr1) \<Rightarrow> (res, q1, tr1))"

section \<open>Notions used to state the properties of the queue\<close>

text \<open>What a step on the arena leaves alone: everything but the arena.\<close>

definition arena_step :: "commandQueue \<Rightarrow> commandQueue \<Rightarrow> bool" where
  "arena_step q q' \<longleftrightarrow>
     commands q' = commands q \<and> vertices q' = vertices q \<and> indices q' = indices q \<and>
     tmpNumVertexFloats q' = tmpNumVertexFloats q \<and> tmpNumIndices q' = tmpNumIndices q \<and>
     drawTrianglesCommandPool q' = drawTrianglesCommandPool q"

definition cmd_vertices :: "command \<Rightarrow> f32 list" where
  "cmd_vertices c = (case c of DrawTrianglesCommand d \<Rightarrow> c_vertices d | _ \<Rightarrow> [])"

definition cmd_ne :: "command \<Rightarrow> nat" where
  "cmd_ne c = (case c of DrawTrianglesCommand d \<Rightarrow> c_nindices d | _ \<Rightarrow> 0)"

definition queue_inv :: "commandQueue \<Rightarrow> bool" where
  "queue_inv q \<longleftrightarrow>
     concat (map cmd_vertices (commands q)) = vertices q \<and>
     sum_list (map cmd_ne (commands q)) = length (indices q) \<and>
     length (drawTrianglesCommandPool q) \<le> 1024"

text \<open>The command that a merge makes of the last command, and the command made otherwise.\<close>

definition merged_command :: "drawTrianglesCommand \<Rightarrow> drawArgs \<Rightarrow> drawTrianglesCommand" where
  "merged_command c a =
     c\<lparr>c_vertices := c_vertices c @ a_vertices a, c_nindices := c_nindices c + length (a_indices a)\<rparr>"

definition new_command :: "drawArgs \<Rightarrow> f32 list list \<Rightarrow> drawTrianglesCommand" where
  "new_command a uniforms =
     \<lparr>c_dst = a_dst a, c_srcs = a_srcs a, c_vertices = a_vertices a,
      c_nindices = length (a_indices a), c_blend = a_blend a, c_dstRegion = a_dstRegion a,
      c_shader = a_shader a, c_uniforms = uniforms, c_evenOdd = a_evenOdd a\<rparr>"

definition splits :: "commandQueue \<Rightarrow> drawArgs \<Rightarrow> bool" where
  "splits q a =
     mustUseDifferentVertexBuffer (tmpNumVertexFloats q + length (a_vertices a))
       (tmpNumIndices q + length (a_indices a))"

definition merges :: "commandQueue \<Rightarrow> drawArgs \<Rightarrow> f32 list list \<Rightarrow> bool" where
  "merges q a uniforms \<longleftrightarrow>
     \<not> splits q a \<and> commands q \<noteq> [] \<and>
     (case last (commands q) of
        DrawTrianglesCommand lastc \<Rightarrow>
          CanMergeWithDrawTrianglesCommand lastc (a_dst a) (a_srcs a) (a_vertices a) (a_blend a)
            (a_dstRegion a) (a_shader a) uniforms (a_evenOdd a)
      | _ \<Rightarrow> False)"

definition rebase_offset :: "commandQueue \<Rightarrow> drawArgs \<Rightarrow> u16" where
  "rebase_offset q a =
     of_nat ((if splits q a then 0 else tmpNumVertexFloats q) div VertexFloatCount)"

definition exampleEnv :: env where
  "exampleEnv = \<lparr>InternalSize = (\<lambda>_. (16, 16)), FilterUniformVariables = (\<lambda>_ u. u)\<rparr>"

definition exampleDraw :: "nat \<Rightarrow> nat \<Rightarrow> drawArgs" where
  "exampleDraw nv ne =
     \<lparr>a_dst = 1, a_srcs = (nilPtr, nilPtr, nilPtr, nilPtr),
      a_offsets = ((Fin 0, Fin 0), (Fin 0, Fin 0), (Fin 0, Fin 0)),
      a_vertices = replicate nv (Fin 0), a_indices = replicate ne 0, a_blend = zeroBlend,
      a_dstRegion = zeroRegion, a_srcRegion = zeroRegion, a_shader = 1, a_uniforms = [],
      a_evenOdd = False\<rparr>"

text \<open>
  The answers of the driver to a sequence of calls made after the calls \<open>tr\<close>.
  Three calls return no error in Go (\<^verbatim>\<open>Dispose\<close> of an image or a shader,
  \<^verbatim>\<open>IsInvalidated\<close>): their answer is nil. The first error of a sequence of
  answers is the first that is not nil.
\<close>

fun has_error_result :: "event \<Rightarrow> bool" where
  "has_error_result (EvDisposeImage _) = False"
| "has_error_result (EvDisposeShader _) = False"
| "has_error_result (EvIsInvalidated _) = False"
| "has_error_result _ = True"

fun answers :: "'e driver \<Rightarrow> event list \<Rightarrow> event list \<Rightarrow> 'e option list" where
  "answers drv tr [] = []"
| "answers drv tr (ev # evs) =
     (if has_error_result ev then drv (tr @ [ev]) else None) # answers drv (tr @ [ev]) evs"

fun first_error :: "'e option list \<Rightarrow> 'e option" where
  "first_error [] = None"
| "first_error (None # as) = first_error as"
| "first_error (Some e # as) = Some e"

text \<open>The calls that \<^verbatim>\<open>Exec\<close> makes: all but \<^verbatim>\<open>Begin\<close>, \<^verbatim>\<open>End\<close> and \<^verbatim>\<open>SetVertices\<close>.\<close>

fun exec_event :: "event \<Rightarrow> bool" where
  "exec_event EvBegin = False"
| "exec_event (EvEnd _) = False"
| "exec_event (EvSetVertices _ _) = False"
| "exec_event _ = True"

fun body_event :: "event \<Rightarrow> bool" where
  "body_event EvBegin = False"
| "body_event (EvEnd _) = False"
| "body_event _ = True"

text \<open>
  A run of calls that stops at the first error: every answer but the last is
  nil, and the error of the run is the last answer (nil for no call at all).
\<close>

definition stops_at_error :: "'e driver \<Rightarrow> event list \<Rightarrow> event list \<Rightarrow> 'e option \<Rightarrow> bool" where
  "stops_at_error drv tr evs err \<longleftrightarrow>
     list_all (\<lambda>a. a = None) (butlast (answers drv tr evs)) \<and>
     err = (if evs = [] then None else last (answers drv tr evs))"

definition outcome_err :: "'e option outcome \<Rightarrow> 'e option" where
  "outcome_err r = (case r of Return err \<Rightarrow> err | _ \<Rightarrow> None)"

text \<open>What one round of the loop of \<open>flush\<close> adds to the calls.\<close>

definition round_trace :: "'e round \<Rightarrow> event list" where
  "round_trace r = (case r of Stop _ tr \<Rightarrow> tr | Next _ _ _ tr \<Rightarrow> tr)"

definition round_err :: "'e round \<Rightarrow> 'e option" where
  "round_err r = (case r of Stop res _ \<Rightarrow> outcome_err res | Next _ _ _ _ \<Rightarrow> None)"

definition noDevice :: "string driver" where
  "noDevice tr = (if last tr = EvBegin then Some ''device lost'' else None)"

definition noError :: "string driver" where
  "noError tr = None"

definition readFails :: "string driver" where
  "readFails tr =
     (case last tr of
        EvReadPixels _ _ _ _ _ \<Rightarrow> Some ''read failed''
      | EvEnd _ \<Rightarrow> Some ''end failed''
      | _ \<Rightarrow> None)"

definition exampleQueue :: commandQueue where
  "exampleQueue =
     Enqueue (Enqueue theCommandQueue (ReadPixelsCommand 1 0 0 1 1)) (DisposeImageCommand 1)"




definition least :: "f32 list \<Rightarrow> f32" where
  "least xs = fold (\<lambda>x m. if flt x m then x else m) xs PInf"






text \<open>
  The queue with another arena of floats: \<open>d\<close> is the backing array and \<open>l\<close>
  the length of the slice.
\<close>

definition with_arena :: "commandQueue \<Rightarrow> f32 list \<Rightarrow> nat \<Rightarrow> commandQueue" where
  "with_arena q d l = q\<lparr>float32sBuffer := \<lparr>fb_data = d, fb_len = l\<rparr>\<rparr>"

text \<open>
  A run of two frames. In the first frame one draw with a source image (16 by
  16 pixels, as every image of \<open>exampleEnv\<close>) and a source region of that size
  is enqueued, and the queue is flushed at the end of the frame. In the second
  frame a draw without any source image is enqueued. \<open>arenaAfterFirstFrame\<close>
  is the backing array of the arena when the first frame is over.
\<close>

definition region16 :: Region where
  "region16 = \<lparr>RegionX = Fin 0, RegionY = Fin 0, RegionWidth = Fin 16, RegionHeight = Fin 16\<rparr>"

definition zeroOffsets :: srcOffsets where
  "zeroOffsets = ((Fin 0, Fin 0), (Fin 0, Fin 0), (Fin 0, Fin 0))"

definition firstFrameDraw :: drawArgs where
  "firstFrameDraw =
     (exampleDraw 8 3)\<lparr>a_srcs := (2, nilPtr, nilPtr, nilPtr), a_srcRegion := region16\<rparr>"

definition arenaAfterFirstFrame :: "f32 list" where
  "arenaAfterFirstFrame =
     [Fin 0, Fin 0, Fin 0, Fin 0, Fin 0, Fin 0, Fin 0, Fin 0, Fin 1, Fin 1,
      Fin (1 / 8), Fin 0, Fin 0, Fin 0, Fin 0, Fin (1 / 8), Fin 0, Fin 0,
      Fin 0, Fin 0, Fin 1, Fin 0, Fin (- 1), Fin (- 1), Fin 0, Fin 1,
      Fin 0, Fin 0, Fin 0, Fin 0, Fin 0, Fin 0]"




text \<open>The uploads of a trace: the arguments of its \<^verbatim>\<open>SetVertices\<close> calls, in order.\<close>

fun uploads :: "event list \<Rightarrow> (f32 list \<times> u16 list) list" where
  "uploads [] = []"
| "uploads (EvSetVertices vs es # evs) = (vs, es) # uploads evs"
| "uploads (_ # evs) = uploads evs"







section \<open>Properties of the vertex backend\<close>

lemma float32SizeLoop_total:
  "0 < l \<Longrightarrow> \<exists>r. float32SizeLoop l sz = Some r \<and> l \<le> r \<and> sz \<le> r"
proof (induction "nat (sz - l)" arbitrary: l rule: less_induct)
  case less
  show ?case
  proof (cases "l < sz")
    case True
    have "nat (sz - l * 2) < nat (sz - l)"
      using True less.prems by linarith
    from less.hyps[OF this] less.prems obtain r where
      "float32SizeLoop (l * 2) sz = Some r" "l * 2 \<le> r" "sz \<le> r"
      by auto
    with True less.prems show ?thesis
      by (subst float32SizeLoop.simps) auto
  next
    case False
    then show ?thesis
      by (subst float32SizeLoop.simps) auto
  qed
qed

lemma verticesBackendFloat32Size_total:
  "\<exists>r. verticesBackendFloat32Size sz = Some r \<and> 0 < r \<and> sz \<le> r"
proof -
  have "(0::int) < 128 * int VertexFloatCount"
    by (simp add: VertexFloatCount_def)
  from float32SizeLoop_total[OF this, of sz] show ?thesis
    unfolding verticesBackendFloat32Size_def by (auto simp: VertexFloatCount_def)
qed








lemma lockAndReset_nil:
  assumes f: "f v = Return (None, v1)"
  shows "\<exists>v'. lockAndReset f v = Return (None, v') \<and> pos v' = 0 \<and> allocs v' = allocs v1 \<and>
           (if underUsed v1
            then (if notFullyUsedTime v1 = maxNotFullyUsedTime - 1 \<or> notFullyUsedTime v1 = maxNotFullyUsedTime
                  then backend v' = None \<and> notFullyUsedTime v' = 0
                  else backend v' = backend v1 \<and>
                       notFullyUsedTime v' = (if notFullyUsedTime v1 < maxNotFullyUsedTime then notFullyUsedTime v1 + 1 else notFullyUsedTime v1))
            else backend v' = backend v1 \<and> notFullyUsedTime v' = 0)"
proof -
  obtain sz where sz: "verticesBackendFloat32Size (pos v1) = Some sz" "0 < sz"
    using verticesBackendFloat32Size_total by blast
  show ?thesis
  proof (cases "sz < backend_len v1")
    case True
    then have len: "0 < backend_len v1" using sz by simp
    have u: "underUsed v1" using True sz by (simp add: underUsed_def)
    from f sz True len u show ?thesis
      by (auto simp: lockAndReset_def Let_def maxNotFullyUsedTime_def backend_len_def)
  next
    case False
    then have u: "\<not> underUsed v1" using sz by (simp add: underUsed_def)
    from f sz False u show ?thesis
      by (auto simp: lockAndReset_def Let_def maxNotFullyUsedTime_def backend_len_def)
  qed
qed

text \<open>
  Claim C8, as the code has it. When the callback returns nil,
  \<^verbatim>\<open>LockAndResetVertices\<close> returns nil with the cursor at zero; the counter of
  under-used windows goes up by one while it is below 59, the window that
  takes it to 60 releases the backing array (the slice becomes nil and the
  counter restarts at zero), and a window that is not under-used sets the
  counter to zero. When the callback returns an error, that error is returned
  at once and the backend stays as the callback left it: the cursor is not
  reset.
\<close>

theorem lockAndReset_resets:
  assumes f: "f v = Return (r, v1)"
  shows "(\<forall>e. r = Some e \<longrightarrow> LockAndResetVertices f v = Return (Some e, v1)) \<and>
         (r = None \<longrightarrow>
            (\<exists>v'. LockAndResetVertices f v = Return (None, v') \<and> pos v' = 0 \<and>
               (underUsed v1 \<and> notFullyUsedTime v1 = maxNotFullyUsedTime - 1 \<longrightarrow>
                  backend v' = None \<and> notFullyUsedTime v' = 0) \<and>
               (underUsed v1 \<and> notFullyUsedTime v1 < maxNotFullyUsedTime - 1 \<longrightarrow>
                  backend v' = backend v1 \<and> notFullyUsedTime v' = notFullyUsedTime v1 + 1) \<and>
               (\<not> underUsed v1 \<longrightarrow> backend v' = backend v1 \<and> notFullyUsedTime v' = 0)))"
proof (cases r)
  case None
  with f have "f v = Return (None, v1)" by simp
  from lockAndReset_nil[of f v v1, OF this] obtain v' where
    "lockAndReset f v = Return (None, v')" "pos v' = 0"
    "if underUsed v1
            then (if notFullyUsedTime v1 = maxNotFullyUsedTime - 1 \<or> notFullyUsedTime v1 = maxNotFullyUsedTime
                  then backend v' = None \<and> notFullyUsedTime v' = 0
                  else backend v' = backend v1 \<and>
                       notFullyUsedTime v' = (if notFullyUsedTime v1 < maxNotFullyUsedTime then notFullyUsedTime v1 + 1 else notFullyUsedTime v1))
            else backend v' = backend v1 \<and> notFullyUsedTime v' = 0"
    by blast
  with None show ?thesis
    unfolding LockAndResetVertices_def
    by (auto simp: maxNotFullyUsedTime_def split: if_splits)
next
  case (Some e)
  with f show ?thesis
    by (simp add: LockAndResetVertices_def lockAndReset_def)
qed

lemma vbfs_small: "sz \<le> 1024 \<Longrightarrow> verticesBackendFloat32Size sz = Some 1024"
  unfolding verticesBackendFloat32Size_def VertexFloatCount_def
  by (subst float32SizeLoop.simps) simp

lemma slice_first: "verticesBackend_slice theVerticesBackend 1 =
   Return (\<lparr>s_arr = 0, s_off = 0, s_len = 8\<rparr>,
           \<lparr>backend = Some \<lparr>s_arr = 0, s_off = 0, s_len = 1024\<rparr>, pos = 8, notFullyUsedTime = 0, allocs = 1\<rparr>)"
  by (simp add: verticesBackend_slice_def theVerticesBackend_def backend_len_def VertexFloatCount_def vbfs_small
      make_floats_def slice_tail_def reslice_def)

text \<open>
  The claim C8 as first stated (the cursor is zero also after a callback that
  failed) does not hold: after one vertex has been handed out, a failing
  callback leaves the cursor at 8.
\<close>

theorem lockAndReset_error_keeps_cursor:
  "\<exists>s v1. Vertices theVerticesBackend 1 = Return (s, v1) \<and>
      LockAndResetVertices (\<lambda>u. Return (Some ''driver error'', u)) v1 = Return (Some ''driver error'', v1) \<and>
      pos v1 = 8"
  by (simp add: Vertices_def slice_first LockAndResetVertices_def lockAndReset_def)

theorem lockAndReset_resets_witness:
  "LockAndResetVertices (\<lambda>u. Return (None :: string option, u))
      \<lparr>backend = Some \<lparr>s_arr = 0, s_off = 0, s_len = 2048\<rparr>, pos = 8, notFullyUsedTime = 59, allocs = 1\<rparr>
    = Return (None, \<lparr>backend = None, pos = 0, notFullyUsedTime = 0, allocs = 1\<rparr>)"
  using lockAndReset_resets[of "\<lambda>u. Return (None :: string option, u)"
      "\<lparr>backend = Some \<lparr>s_arr = 0, s_off = 0, s_len = 2048\<rparr>, pos = 8, notFullyUsedTime = 59, allocs = 1\<rparr>"
      None "\<lparr>backend = Some \<lparr>s_arr = 0, s_off = 0, s_len = 2048\<rparr>, pos = 8, notFullyUsedTime = 59, allocs = 1\<rparr>"]
  by (simp add: underUsed_def vbfs_small backend_len_def maxNotFullyUsedTime_def LockAndResetVertices_def
       lockAndReset_def)

section \<open>Properties of enqueueing\<close>

lemma IndicesCount_value: "IndicesCount = 65535"
  by (simp add: IndicesCount_def)

lemma roundUpPower2Loop_total:
  "0 < p \<Longrightarrow> \<exists>r. roundUpPower2Loop p x = Some r \<and> p \<le> r \<and> x \<le> r"
proof (induction "x - p" arbitrary: p rule: less_induct)
  case less
  show ?case
  proof (cases "p < x")
    case True
    have "x - p * 2 < x - p" using True less.prems by linarith
    from less.hyps[OF this] less.prems obtain r where
      "roundUpPower2Loop (p * 2) x = Some r" "p * 2 \<le> r" "x \<le> r"
      by auto
    with True less.prems show ?thesis
      by (subst roundUpPower2Loop.simps) auto
  next
    case False
    then show ?thesis
      by (subst roundUpPower2Loop.simps) auto
  qed
qed

lemma roundUpPower2_total: "\<exists>r. roundUpPower2 x = Some r \<and> x \<le> r"
  using roundUpPower2Loop_total[of 1 x] by (auto simp: roundUpPower2_def)

lemma arena_step_refl [simp]: "arena_step q q"
  by (simp add: arena_step_def)

lemma arena_step_trans: "arena_step q q1 \<Longrightarrow> arena_step q1 q2 \<Longrightarrow> arena_step q q2"
  by (simp add: arena_step_def)

lemma allocFloat32s_returns:
  "\<exists>off q'. allocFloat32s q n = Return (off, q') \<and> arena_step q q' \<and>
      off + n \<le> length (fb_data (float32sBuffer q')) \<and> fb_len (float32sBuffer q') = off + n"
proof (cases "fb_len (float32sBuffer q) + n > length (fb_data (float32sBuffer q))")
  case True
  obtain p where p: "roundUpPower2 (fb_len (float32sBuffer q) + n) = Some p"
      "fb_len (float32sBuffer q) + n \<le> p"
    using roundUpPower2_total by blast
  with True show ?thesis
    by (simp add: allocFloat32s_def Let_def arena_step_def)
next
  case False
  then show ?thesis
    by (simp add: allocFloat32s_def Let_def arena_step_def)
qed

lemma arena_step_setFloat [simp]: "arena_step q (setFloat q' off i v) = arena_step q q'"
  by (simp add: arena_step_def setFloat_def)

lemma arena_step_setFloat_left [simp]: "arena_step (setFloat q off i v) q' = arena_step q q'"
  by (simp add: arena_step_def setFloat_def)

lemma setFloat_length [simp]:
  "length (fb_data (float32sBuffer (setFloat q off i v))) = length (fb_data (float32sBuffer q))"
  by (simp add: setFloat_def)

lemma setFloat_len [simp]:
  "fb_len (float32sBuffer (setFloat q off i v)) = fb_len (float32sBuffer q)"
  by (simp add: setFloat_def)

lemma arena_step_setFloats [simp]: "arena_step q (setFloats q' off i vs) = arena_step q q'"
  by (induction vs arbitrary: q' i) auto

lemma arena_step_setFloats_left [simp]: "arena_step (setFloats q off i vs) q' = arena_step q q'"
  by (induction vs arbitrary: q i) auto

lemma setFloats_length [simp]:
  "length (fb_data (float32sBuffer (setFloats q off i vs))) = length (fb_data (float32sBuffer q))"
  by (induction vs arbitrary: q i) auto

lemma setFloats_len [simp]:
  "fb_len (float32sBuffer (setFloats q off i vs)) = fb_len (float32sBuffer q)"
  by (induction vs arbitrary: q i) auto

lemma arena_step_setSourceSizes [simp]:
  "arena_step q (setSourceSizes e srcs i off q') = arena_step q q'"
  by (induction srcs arbitrary: q' i) (auto split: prod.splits)

lemma arena_step_setSourceSizes_left [simp]:
  "arena_step (setSourceSizes e srcs i off q) q' = arena_step q q'"
  by (induction srcs arbitrary: q i) (auto split: prod.splits)

lemma setSourceSizes_length [simp]:
  "length (fb_data (float32sBuffer (setSourceSizes e srcs i off q))) = length (fb_data (float32sBuffer q))"
  by (induction srcs arbitrary: q i) (auto split: prod.splits)

lemma setSourceSizes_len [simp]:
  "fb_len (float32sBuffer (setSourceSizes e srcs i off q)) = fb_len (float32sBuffer q)"
  by (induction srcs arbitrary: q i) (auto split: prod.splits)

lemma arena_step_setOffsets [simp]: "arena_step q (setOffsets offs i off q') = arena_step q q'"
  by (induction offs arbitrary: q' i) auto

lemma arena_step_setOffsets_left [simp]: "arena_step (setOffsets offs i off q) q' = arena_step q q'"
  by (induction offs arbitrary: q i) auto

lemma setOffsets_length [simp]:
  "length (fb_data (float32sBuffer (setOffsets offs i off q))) = length (fb_data (float32sBuffer q))"
  by (induction offs arbitrary: q i) auto

lemma setOffsets_len [simp]:
  "fb_len (float32sBuffer (setOffsets offs i off q)) = fb_len (float32sBuffer q)"
  by (induction offs arbitrary: q i) auto

lemma window_length:
  "off + n \<le> length (fb_data (float32sBuffer q)) \<Longrightarrow> length (window q off n) = n"
  by (simp add: window_def)

lemma shiftUniforms_shape:
  "length (shiftUniforms us) = 8 + length us \<and> drop 8 (shiftUniforms us) = us"
  by (simp add: shiftUniforms_def Let_def PreservedUniformVariablesCount_def)

text \<open>
  A block returns; it changes the arena and the one uniform only. The blocks
  are called with steps on the arena as \<open>fill\<close>.
\<close>

lemma uniformBlock_returns:
  assumes "\<And>off q1. arena_step q1 (fill off q1) \<and>
             length (fb_data (float32sBuffer (fill off q1))) = length (fb_data (float32sBuffer q1)) \<and>
             fb_len (float32sBuffer (fill off q1)) = fb_len (float32sBuffer q1)"
  shows "\<exists>w q'. uniformBlock q u idx n fill = Return (u[idx := w], q') \<and> length w = n \<and>
           arena_step q q' \<and> fb_len (float32sBuffer q') \<le> length (fb_data (float32sBuffer q'))"
proof -
  from allocFloat32s_returns[of q n] obtain off q1 where
    a: "allocFloat32s q n = Return (off, q1)" "arena_step q q1"
       "off + n \<le> length (fb_data (float32sBuffer q1))" "fb_len (float32sBuffer q1) = off + n"
    by blast
  from assms[of q1 off] a have
    "uniformBlock q u idx n fill = Return (u[idx := window (fill off q1) off n], fill off q1)"
    "length (window (fill off q1) off n) = n" "arena_step q (fill off q1)"
    "fb_len (float32sBuffer (fill off q1)) \<le> length (fb_data (float32sBuffer (fill off q1)))"
    by (simp_all add: uniformBlock_def obind_def window_length arena_step_def)
  then show ?thesis by blast
qed

lemma obind_block:
  assumes "\<And>off q1. arena_step q1 (fill off q1) \<and>
             length (fb_data (float32sBuffer (fill off q1))) = length (fb_data (float32sBuffer q1)) \<and>
             fb_len (float32sBuffer (fill off q1)) = fb_len (float32sBuffer q1)"
    and "\<And>w q'. length w = n \<Longrightarrow> arena_step q q' \<Longrightarrow> \<exists>u' q''. f (u[idx := w], q') = Return (u', q'') \<and> P u' q''"
  shows "\<exists>u' q''. obind (uniformBlock q u idx n fill) f = Return (u', q'') \<and> P u' q''"
proof -
  from uniformBlock_returns[of fill q u idx n, OF assms(1)] obtain w q' where
    b: "uniformBlock q u idx n fill = Return (u[idx := w], q')" "length w = n" "arena_step q q'"
    by blast
  from assms(2)[OF b(2,3)] b(1) show ?thesis
    by (simp add: obind_def)
qed

lemmas uniform_index_defs =
  TextureDestinationSizeUniformVariableIndex_def TextureSourceSizesUniformVariableIndex_def
  TextureDestinationRegionOriginUniformVariableIndex_def
  TextureDestinationRegionSizeUniformVariableIndex_def
  TextureSourceOffsetsUniformVariableIndex_def TextureSourceRegionOriginUniformVariableIndex_def
  TextureSourceRegionSizeUniformVariableIndex_def ProjectionMatrixUniformVariableIndex_def

lemma take8_nth:
  "length u = 8 + n \<Longrightarrow> take 8 u = [u ! 0, u ! 1, u ! 2, u ! 3, u ! 4, u ! 5, u ! 6, u ! 7]"
  by (simp add: list_eq_iff_nth_eq nth_Cons' numeral_eq_Suc less_Suc_eq)

lemma prependPreservedUniforms_returns:
  assumes "dst \<noteq> nilPtr"
  shows "\<exists>u q'. prependPreservedUniforms e q us dst srcs offs dr sr = Return (u, q') \<and>
              arena_step q q' \<and> length u = 8 + length us \<and> drop 8 u = us \<and>
              fb_len (float32sBuffer q') \<le> length (fb_data (float32sBuffer q')) \<and>
              map length (take 8 u) = [2, 8, 2, 2, 6, 2, 2, 16]"
proof -
  obtain dw dh where sz: "InternalSize e dst = (dw, dh)"
    by (cases "InternalSize e dst")
  define u0 where "u0 = shiftUniforms us"
  have u0: "length u0 = 8 + length us" "drop 8 u0 = us"
    by (simp_all add: u0_def shiftUniforms_shape)
  have l4: "length (srcs_list srcs) = 4"
    by (cases srcs) (simp add: srcs_list_def)
  have l3: "length (scaleOffsets e (fst srcs) (offsets_list offs)) = 3"
    by (cases offs) (simp add: scaleOffsets_def offsets_list_def split: prod.splits)
  let ?f0 = "\<lambda>udstsize q. setFloat (setFloat q udstsize 0 (f32_of_int dw)) udstsize 1 (f32_of_int dh)"
  let ?f1 = "\<lambda>usizes q. setSourceSizes e (srcs_list srcs) 0 usizes q"
  let ?f2 = "\<lambda>udstrorig q. setFloat (setFloat q udstrorig 0 (fdiv (RegionX dr) (f32_of_int dw)))
                    udstrorig 1 (fdiv (RegionY dr) (f32_of_int dh))"
  let ?f3 = "\<lambda>udstrsize q. setFloat (setFloat q udstrsize 0 (fdiv (RegionWidth dr) (f32_of_int dw)))
                    udstrsize 1 (fdiv (RegionHeight dr) (f32_of_int dh))"
  let ?f4 = "\<lambda>uoffsets q. setOffsets (scaleOffsets e (fst srcs) (offsets_list offs)) 0 uoffsets q"
  let ?f5 = "\<lambda>usrcrorig q. setFloat (setFloat q usrcrorig 0 (RegionX (scaleRegion e (fst srcs) sr)))
                    usrcrorig 1 (RegionY (scaleRegion e (fst srcs) sr))"
  let ?f6 = "\<lambda>usrcrsize q. setFloat (setFloat q usrcrsize 0 (RegionWidth (scaleRegion e (fst srcs) sr)))
                    usrcrsize 1 (RegionHeight (scaleRegion e (fst srcs) sr))"
  let ?f7 = "\<lambda>umatrix q. setFloats q umatrix 0
             [fdiv (Fin 2) (f32_of_int dw), Fin 0, Fin 0, Fin 0,
              Fin 0, fdiv (Fin 2) (f32_of_int dh), Fin 0, Fin 0,
              Fin 0, Fin 0, Fin 1, Fin 0,
              Fin (- 1), Fin (- 1), Fin 0, Fin 1]"
  from uniformBlock_returns[of ?f0 q u0 0 2] obtain w0 q0 where
    b0: "uniformBlock q u0 0 2 ?f0 = Return (u0[0 := w0], q0)" "length w0 = 2" "arena_step q q0"
    by (auto simp del: setFloats.simps)
  from uniformBlock_returns[of ?f1 q0 "u0[0 := w0]" 1 "2 * 4"] obtain w1 q1 where
    b1: "uniformBlock q0 (u0[0 := w0]) 1 (2 * 4) ?f1 = Return (u0[0 := w0, 1 := w1], q1)"
      "length w1 = 8" "arena_step q0 q1"
    by (auto simp del: setFloats.simps)
  from uniformBlock_returns[of ?f2 q1 "u0[0 := w0, 1 := w1]" 2 2] obtain w2 q2 where
    b2: "uniformBlock q1 (u0[0 := w0, 1 := w1]) 2 2 ?f2 = Return (u0[0 := w0, 1 := w1, 2 := w2], q2)"
      "length w2 = 2" "arena_step q1 q2"
    by (auto simp del: setFloats.simps)
  from uniformBlock_returns[of ?f3 q2 "u0[0 := w0, 1 := w1, 2 := w2]" 3 2] obtain w3 q3 where
    b3: "uniformBlock q2 (u0[0 := w0, 1 := w1, 2 := w2]) 3 2 ?f3 =
          Return (u0[0 := w0, 1 := w1, 2 := w2, 3 := w3], q3)"
      "length w3 = 2" "arena_step q2 q3"
    by (auto simp del: setFloats.simps)
  from uniformBlock_returns[of ?f4 q3 "u0[0 := w0, 1 := w1, 2 := w2, 3 := w3]" 4 "2 * 3"]
  obtain w4 q4 where
    b4: "uniformBlock q3 (u0[0 := w0, 1 := w1, 2 := w2, 3 := w3]) 4 (2 * 3) ?f4 =
          Return (u0[0 := w0, 1 := w1, 2 := w2, 3 := w3, 4 := w4], q4)"
      "length w4 = 6" "arena_step q3 q4"
    by (auto simp del: setFloats.simps)
  from uniformBlock_returns[of ?f5 q4 "u0[0 := w0, 1 := w1, 2 := w2, 3 := w3, 4 := w4]" 5 2]
  obtain w5 q5 where
    b5: "uniformBlock q4 (u0[0 := w0, 1 := w1, 2 := w2, 3 := w3, 4 := w4]) 5 2 ?f5 =
          Return (u0[0 := w0, 1 := w1, 2 := w2, 3 := w3, 4 := w4, 5 := w5], q5)"
      "length w5 = 2" "arena_step q4 q5"
    by (auto simp del: setFloats.simps)
  from uniformBlock_returns[of ?f6 q5 "u0[0 := w0, 1 := w1, 2 := w2, 3 := w3, 4 := w4, 5 := w5]" 6 2]
  obtain w6 q6 where
    b6: "uniformBlock q5 (u0[0 := w0, 1 := w1, 2 := w2, 3 := w3, 4 := w4, 5 := w5]) 6 2 ?f6 =
          Return (u0[0 := w0, 1 := w1, 2 := w2, 3 := w3, 4 := w4, 5 := w5, 6 := w6], q6)"
      "length w6 = 2" "arena_step q5 q6"
    by (auto simp del: setFloats.simps)
  from uniformBlock_returns[of ?f7 q6
      "u0[0 := w0, 1 := w1, 2 := w2, 3 := w3, 4 := w4, 5 := w5, 6 := w6]" 7 16]
  obtain w7 q7 where
    b7: "uniformBlock q6 (u0[0 := w0, 1 := w1, 2 := w2, 3 := w3, 4 := w4, 5 := w5, 6 := w6]) 7 16 ?f7 =
          Return (u0[0 := w0, 1 := w1, 2 := w2, 3 := w3, 4 := w4, 5 := w5, 6 := w6, 7 := w7], q7)"
      "length w7 = 16" "arena_step q6 q7"
      "fb_len (float32sBuffer q7) \<le> length (fb_data (float32sBuffer q7))"
    by (auto simp del: setFloats.simps)
  have r: "prependPreservedUniforms e q us dst srcs offs dr sr =
      Return (u0[0 := w0, 1 := w1, 2 := w2, 3 := w3, 4 := w4, 5 := w5, 6 := w6, 7 := w7], q7)"
    unfolding prependPreservedUniforms_def u0_def[symmetric] uniform_index_defs l4 l3
    using assms sz
    by (simp only: if_False prod.case b0 b1 b2 b3 b4 b5 b6 b7 obind_def outcome.case)
  have st: "arena_step q q7"
    using b0(3) b1(3) b2(3) b3(3) b4(3) b5(3) b6(3) b7(3) by (simp add: arena_step_def)
  show ?thesis
    unfolding r using u0 st b7(4) b0(2) b1(2) b2(2) b3(2) b4(2) b5(2) b6(2) b7(2)
    by (simp add: take8_nth[of _ "length us"])
qed

lemma appendIndices_fold:
  "k \<le> length is \<Longrightarrow>
   fold (\<lambda>i q'. q'\<lparr>indices := (indices q')[n + i := indices q' ! (n + i) + offset]\<rparr>) [0..<k]
     (q\<lparr>indices := xs @ is\<rparr>) =
   q\<lparr>indices := xs @ map (\<lambda>i. i + offset) (take k is) @ drop k is\<rparr>"
  if "n = length xs"
proof (induction k)
  case 0
  then show ?case by simp
next
  case (Suc k)
  then have k: "k < length is" by simp
  have "(xs @ map (\<lambda>i. i + offset) (take k is) @ drop k is)[n + k := (xs @ map (\<lambda>i. i + offset) (take k is) @ drop k is) ! (n + k) + offset]
        = xs @ map (\<lambda>i. i + offset) (take (Suc k) is) @ drop (Suc k) is"
    using k that
    by (simp add: list_update_append nth_append take_Suc_conv_app_nth Cons_nth_drop_Suc[symmetric]
        min_def)
  with Suc show ?case by simp
qed

lemma appendIndices_eq:
  "appendIndices q is offset = q\<lparr>indices := indices q @ map (\<lambda>i. i + offset) is\<rparr>"
  unfolding appendIndices_def Let_def
  using appendIndices_fold[of "length (indices q)" "indices q" "length is" "is" offset q]
  by simp

lemma pool_get_length: "length (snd (pool_get p)) \<le> length p"
  by (simp add: pool_get_def)

lemma new_command_eq:
  "c\<lparr>c_dst := a_dst a, c_srcs := a_srcs a, c_vertices := a_vertices a,
      c_nindices := length (a_indices a), c_blend := a_blend a, c_dstRegion := a_dstRegion a,
      c_shader := a_shader a, c_uniforms := uniforms, c_evenOdd := a_evenOdd a\<rparr> = new_command a uniforms"
  by (cases c) (simp add: new_command_def)

lemma enqueueNew_effect:
  assumes "\<exists>xs. vertices q = xs @ a_vertices a"
  shows "enqueueNew q a uniforms =
           Return (q\<lparr>drawTrianglesCommandPool := snd (pool_get (drawTrianglesCommandPool q)),
                     commands := commands q @ [DrawTrianglesCommand (new_command a uniforms)]\<rparr>)"
proof -
  from assms obtain xs where xs: "vertices q = xs @ a_vertices a" by blast
  then have "lastVertices q (length (a_vertices a)) = Return (a_vertices a)"
    by (simp add: lastVertices_def)
  then show ?thesis
    by (simp add: enqueueNew_def obind_def new_command_eq split: prod.split)
qed

lemma EnqueueDrawTrianglesCommand_effect:
  assumes inv: "queue_inv q"
    and n: "length (a_indices a) \<le> IndicesCount"
    and dst: "a_dst a \<noteq> nilPtr" and sh: "a_shader a \<noteq> nilPtr"
  shows "\<exists>q' u0. EnqueueDrawTrianglesCommand e q a = Return q' \<and>
           (let uniforms = FilterUniformVariables e (a_shader a) u0 in
            length u0 = 8 + length (a_uniforms a) \<and> drop 8 u0 = a_uniforms a \<and>
            vertices q' = vertices q @ a_vertices a \<and>
            indices q' = indices q @ map (\<lambda>i. i + rebase_offset q a) (a_indices a) \<and>
            tmpNumVertexFloats q' =
              (if splits q a then 0 else tmpNumVertexFloats q) + length (a_vertices a) \<and>
            tmpNumIndices q' = (if splits q a then 0 else tmpNumIndices q) + length (a_indices a) \<and>
            (if merges q a uniforms
             then commands q' = butlast (commands q) @
                    [DrawTrianglesCommand
                       (merged_command (case last (commands q) of DrawTrianglesCommand c \<Rightarrow> c) a)] \<and>
                  drawTrianglesCommandPool q' = drawTrianglesCommandPool q
             else commands q' = commands q @ [DrawTrianglesCommand (new_command a uniforms)] \<and>
                  drawTrianglesCommandPool q' = snd (pool_get (drawTrianglesCommandPool q))))"
proof -
  define tv where "tv = (if splits q a then 0 else tmpNumVertexFloats q)"
  define te where "te = (if splits q a then 0 else tmpNumIndices q)"
  define q4 where "q4 = enqueueAppend q a (splits q a)"
  have q4: "commands q4 = commands q" "vertices q4 = vertices q @ a_vertices a"
    "indices q4 = indices q @ map (\<lambda>i. i + rebase_offset q a) (a_indices a)"
    "tmpNumVertexFloats q4 = tv + length (a_vertices a)" "tmpNumIndices q4 = te + length (a_indices a)"
    "drawTrianglesCommandPool q4 = drawTrianglesCommandPool q"
    by (simp_all add: q4_def enqueueAppend_def Let_def appendIndices_eq tv_def te_def rebase_offset_def)
  from prependPreservedUniforms_returns[OF dst, of e q4 "a_uniforms a" "a_srcs a" "a_offsets a"
      "a_dstRegion a" "a_srcRegion a"]
  obtain u0 q5 where p: "prependPreservedUniforms e q4 (a_uniforms a) (a_dst a) (a_srcs a) (a_offsets a)
      (a_dstRegion a) (a_srcRegion a) = Return (u0, q5)" "arena_step q4 q5"
      "length u0 = 8 + length (a_uniforms a)" "drop 8 u0 = a_uniforms a"
    by blast
  define uniforms where "uniforms = FilterUniformVariables e (a_shader a) u0"
  have q5: "commands q5 = commands q" "vertices q5 = vertices q @ a_vertices a"
    "indices q5 = indices q @ map (\<lambda>i. i + rebase_offset q a) (a_indices a)"
    "tmpNumVertexFloats q5 = tv + length (a_vertices a)" "tmpNumIndices q5 = te + length (a_indices a)"
    "drawTrianglesCommandPool q5 = drawTrianglesCommandPool q"
    using p(2) q4 by (simp_all add: arena_step_def)
  have unfold: "EnqueueDrawTrianglesCommand e q a = enqueueCommand q5 a (splits q a) uniforms"
    using n sh p(1)
    unfolding EnqueueDrawTrianglesCommand_def splits_def[symmetric] Let_def q4_def[symmetric] uniforms_def
    by (simp add: obind_def)
  have new: "enqueueNew q5 a uniforms =
           Return (q5\<lparr>drawTrianglesCommandPool := snd (pool_get (drawTrianglesCommandPool q5)),
                     commands := commands q5 @ [DrawTrianglesCommand (new_command a uniforms)]\<rparr>)"
    by (rule enqueueNew_effect) (simp add: q5)
  show ?thesis
  proof (cases "merges q a uniforms")
    case True
    then obtain lastc where l: "\<not> splits q a" "commands q \<noteq> []" "last (commands q) = DrawTrianglesCommand lastc"
      "CanMergeWithDrawTrianglesCommand lastc (a_dst a) (a_srcs a) (a_vertices a) (a_blend a)
            (a_dstRegion a) (a_shader a) uniforms (a_evenOdd a)"
      by (auto simp: merges_def split: command.splits)
    from l(2,3) have cs: "commands q = butlast (commands q) @ [DrawTrianglesCommand lastc]"
      by (metis append_butlast_last_id)
    have "concat (map cmd_vertices (butlast (commands q) @ [DrawTrianglesCommand lastc])) = vertices q"
      using inv cs unfolding queue_inv_def by simp
    then have "vertices q = concat (map cmd_vertices (butlast (commands q))) @ c_vertices lastc"
      by (simp add: cmd_vertices_def)
    then have lv: "lastVertices q5 (length (a_vertices a) + numVertices lastc) =
        Return (c_vertices lastc @ a_vertices a)"
      by (simp add: lastVertices_def q5 numVertices_def)
    have "EnqueueDrawTrianglesCommand e q a =
        Return (q5\<lparr>commands := butlast (commands q) @ [DrawTrianglesCommand (merged_command lastc a)]\<rparr>)"
      unfolding unfold enqueueCommand_def using l lv
      by (simp add: q5 obind_def merged_command_def addNumIndices_def setVertices_def)
    with True l p(3,4) show ?thesis
      by (intro exI[of _ "q5\<lparr>commands := butlast (commands q) @ [DrawTrianglesCommand (merged_command lastc a)]\<rparr>"]
            exI[of _ u0])
         (simp add: Let_def q5 uniforms_def[symmetric] tv_def te_def)
  next
    case False
    then have "EnqueueDrawTrianglesCommand e q a = enqueueNew q5 a uniforms"
      unfolding unfold enqueueCommand_def by (auto simp: merges_def q5 split: command.splits)
    with False new p(3,4) show ?thesis
      by (intro exI[of _ "q5\<lparr>drawTrianglesCommandPool := snd (pool_get (drawTrianglesCommandPool q5)),
                     commands := commands q5 @ [DrawTrianglesCommand (new_command a uniforms)]\<rparr>"]
            exI[of _ u0])
         (simp add: Let_def q5 uniforms_def[symmetric] tv_def te_def)
  qed
qed

lemma queue_inv_theCommandQueue: "queue_inv theCommandQueue"
  by (simp add: queue_inv_def theCommandQueue_def)

lemma EnqueueDrawTrianglesCommand_inv:
  assumes inv: "queue_inv q"
    and n: "length (a_indices a) \<le> IndicesCount"
    and dst: "a_dst a \<noteq> nilPtr" and sh: "a_shader a \<noteq> nilPtr"
  shows "\<exists>q'. EnqueueDrawTrianglesCommand e q a = Return q' \<and> queue_inv q'"
proof -
  from EnqueueDrawTrianglesCommand_effect[OF assms, of e] obtain q' u0 where
    r: "EnqueueDrawTrianglesCommand e q a = Return q'"
    and v: "vertices q' = vertices q @ a_vertices a"
    and i: "indices q' = indices q @ map (\<lambda>i. i + rebase_offset q a) (a_indices a)"
    and c: "if merges q a (FilterUniformVariables e (a_shader a) u0)
             then commands q' = butlast (commands q) @
                    [DrawTrianglesCommand
                       (merged_command (case last (commands q) of DrawTrianglesCommand c \<Rightarrow> c) a)] \<and>
                  drawTrianglesCommandPool q' = drawTrianglesCommandPool q
             else commands q' = commands q @ [DrawTrianglesCommand (new_command a (FilterUniformVariables e (a_shader a) u0))] \<and>
                  drawTrianglesCommandPool q' = snd (pool_get (drawTrianglesCommandPool q))"
    unfolding Let_def by blast
  have "queue_inv q'"
  proof (cases "merges q a (FilterUniformVariables e (a_shader a) u0)")
    case True
    then obtain lastc where l: "commands q \<noteq> []" "last (commands q) = DrawTrianglesCommand lastc"
      by (auto simp: merges_def split: command.splits)
    define bl where "bl = butlast (commands q)"
    from l have cs: "commands q = bl @ [DrawTrianglesCommand lastc]"
      unfolding bl_def by (metis append_butlast_last_id)
    have 1: "concat (map cmd_vertices bl) @ c_vertices lastc = vertices q"
      and 2: "sum_list (map cmd_ne bl) + c_nindices lastc = length (indices q)"
      using inv unfolding queue_inv_def cs by (simp_all add: cmd_vertices_def cmd_ne_def)
    from True c l have "commands q' = bl @ [DrawTrianglesCommand (merged_command lastc a)]"
      "drawTrianglesCommandPool q' = drawTrianglesCommandPool q"
      by (simp_all add: bl_def)
    with 1 2 v i inv show ?thesis
      by (simp add: queue_inv_def cmd_vertices_def cmd_ne_def merged_command_def)
  next
    case False
    with c v i inv pool_get_length[of "drawTrianglesCommandPool q"] show ?thesis
      by (simp add: queue_inv_def cmd_vertices_def cmd_ne_def new_command_def)
  qed
  with r show ?thesis by blast
qed

lemma Enqueue_inv:
  "queue_inv q \<Longrightarrow> cmd_vertices c = [] \<Longrightarrow> cmd_ne c = 0 \<Longrightarrow> queue_inv (Enqueue q c)"
  by (simp add: queue_inv_def Enqueue_def)

text \<open>
  Claim C3. The ceiling \<open>IndicesCount\<close> is 65535, the largest multiple of 3
  that does not exceed \<open>2^16\<close>. A call of \<^verbatim>\<open>EnqueueDrawTrianglesCommand\<close>
  with more indices than that panics: no queue and no error value comes back.
  With at most that many indices the check does not fire: on a queue in a
  state that enqueueing and flushing lead to, with a destination and a shader
  that are not nil, the call returns.
\<close>

theorem EnqueueDrawTrianglesCommand_ceiling:
  "IndicesCount = 65535 \<and> 3 dvd IndicesCount \<and> IndicesCount \<le> 2 ^ 16 \<and>
   (\<forall>m. 3 dvd m \<and> m \<le> 2 ^ 16 \<longrightarrow> m \<le> IndicesCount) \<and>
   (IndicesCount < length (a_indices a) \<longrightarrow> EnqueueDrawTrianglesCommand e q a = Panic) \<and>
   (length (a_indices a) \<le> IndicesCount \<and> queue_inv q \<and> a_dst a \<noteq> nilPtr \<and> a_shader a \<noteq> nilPtr \<longrightarrow>
      (\<exists>q'. EnqueueDrawTrianglesCommand e q a = Return q'))"
proof -
  have v: "IndicesCount = 65535" by (simp add: IndicesCount_def)
  have "m \<le> 65535" if "3 dvd m" "m \<le> 2 ^ 16" for m :: nat
  proof -
    have "\<not> 3 dvd (65536 :: nat)" by presburger
    with that have "m \<noteq> 65536" by auto
    with that(2) show ?thesis by simp
  qed
  moreover have "(3::nat) dvd 65535" by presburger
  moreover have "EnqueueDrawTrianglesCommand e q a = Panic" if "IndicesCount < length (a_indices a)"
    using that by (simp add: EnqueueDrawTrianglesCommand_def)
  moreover have "\<exists>q'. EnqueueDrawTrianglesCommand e q a = Return q'"
    if "length (a_indices a) \<le> IndicesCount" "queue_inv q" "a_dst a \<noteq> nilPtr" "a_shader a \<noteq> nilPtr"
    using EnqueueDrawTrianglesCommand_inv[OF that(2,1,3,4), of e] by blast
  ultimately show ?thesis using v by simp
qed

theorem EnqueueDrawTrianglesCommand_ceiling_witness:
  "EnqueueDrawTrianglesCommand exampleEnv theCommandQueue (exampleDraw 8 65536) = Panic \<and>
   (\<exists>q'. EnqueueDrawTrianglesCommand exampleEnv theCommandQueue (exampleDraw 8 65535) = Return q')"
proof -
  have big: "IndicesCount < length (a_indices (exampleDraw 8 65536))"
    by (simp add: exampleDraw_def IndicesCount_def)
  have small: "length (a_indices (exampleDraw 8 65535)) \<le> IndicesCount \<and> queue_inv theCommandQueue \<and>
      a_dst (exampleDraw 8 65535) \<noteq> nilPtr \<and> a_shader (exampleDraw 8 65535) \<noteq> nilPtr"
    by (simp add: exampleDraw_def IndicesCount_def nilPtr_def queue_inv_theCommandQueue)
  from EnqueueDrawTrianglesCommand_ceiling[of "exampleDraw 8 65536" exampleEnv theCommandQueue] big
  have 1: "EnqueueDrawTrianglesCommand exampleEnv theCommandQueue (exampleDraw 8 65536) = Panic"
    by blast
  from EnqueueDrawTrianglesCommand_ceiling[of "exampleDraw 8 65535" exampleEnv theCommandQueue] small
  have 2: "\<exists>q'. EnqueueDrawTrianglesCommand exampleEnv theCommandQueue (exampleDraw 8 65535) = Return q'"
    by blast
  from 1 2 show ?thesis by blast
qed

text \<open>
  Claim C10. \<^verbatim>\<open>Exec\<close> of a draw-triangles command without indices returns
  nil and leaves the sequence of driver calls as it was, whatever the driver
  and the index offset: no call is made, \<^verbatim>\<open>DrawTriangles\<close> in particular.
\<close>

theorem Exec_no_indices:
  "c_nindices c = 0 \<Longrightarrow> Exec drv (DrawTrianglesCommand c) indexOffset tr = (None, tr)"
  by simp

theorem Exec_no_indices_witness:
  "c_nindices zeroCommand = 0 \<and>
   Exec (\<lambda>_. Some ''lost device'') (DrawTrianglesCommand zeroCommand) 7 [EvBegin] = (None, [EvBegin])"
proof -
  have z: "c_nindices zeroCommand = 0" by (simp add: zeroCommand_def)
  from Exec_no_indices[OF z, of "\<lambda>_. Some ''lost device''" 7 "[EvBegin]"] z show ?thesis
    by simp
qed

section \<open>The preserved uniforms over two frames\<close>

text \<open>
  A block of \<^verbatim>\<open>prependPreservedUniforms\<close> on a queue whose arena is known:
  the window is cut from the backing array when it has room, and from a new
  array of zeros otherwise.
\<close>

lemma with_arena_id: "with_arena q (fb_data (float32sBuffer q)) (fb_len (float32sBuffer q)) = q"
  by (simp add: with_arena_def)

lemma with_arena_twice [simp]: "with_arena (with_arena q d l) d' l' = with_arena q d' l'"
  by (simp add: with_arena_def)

lemma uniformBlock_fit:
  "l + n \<le> length d \<Longrightarrow>
   uniformBlock (with_arena q d l) u idx n fill =
     Return (u[idx := window (fill l (with_arena q d (l + n))) l n], fill l (with_arena q d (l + n)))"
  by (simp add: uniformBlock_def allocFloat32s_def Let_def with_arena_def obind_def)

lemma uniformBlock_grow:
  "length d < l + n \<Longrightarrow>
   uniformBlock (with_arena q d l) u idx n fill =
     (case roundUpPower2 (l + n) of
        None \<Rightarrow> Hang
      | Some p \<Rightarrow>
          Return (u[idx := window (fill 0 (with_arena q (replicate (max p 16) (Fin 0)) n)) 0 n],
                  fill 0 (with_arena q (replicate (max p 16) (Fin 0)) n)))"
  by (simp add: uniformBlock_def allocFloat32s_def Let_def with_arena_def obind_def split: option.split)

lemma setFloat_arena: "setFloat (with_arena q d l) off i v = with_arena q (d[off + i := v]) l"
  by (simp add: setFloat_def with_arena_def)

lemma window_arena: "window (with_arena q d l) off n = take n (drop off d)"
  by (simp add: window_def with_arena_def)

lemma roundUpPower2_values: "roundUpPower2 2 = Some 2" "roundUpPower2 20 = Some 32"
  by code_simp+

lemma roundUpPower2_Suc2: "roundUpPower2 (Suc (Suc 0)) = Some 2"
  using roundUpPower2_values(1) by (simp add: numeral_2_eq_2)

lemma f32_of_int_16: "f32_of_int 16 = Fin 16" by code_simp
lemma fdiv_0_16: "fdiv (Fin 0) (Fin 16) = Fin 0" by code_simp
lemma fdiv_16_16: "fdiv (Fin 16) (Fin 16) = Fin 1" by code_simp
lemma fdiv_2_16: "fdiv (Fin 2) (Fin 16) = Fin (1 / 8)" by code_simp

lemma replicate_16: "replicate 16 x = [x,x,x,x,x,x,x,x,x,x,x,x,x,x,x,x]"
  by (simp add: numeral_eq_Suc)

lemma replicate_32: "replicate 32 x = [x,x,x,x,x,x,x,x,x,x,x,x,x,x,x,x,x,x,x,x,x,x,x,x,x,x,x,x,x,x,x,x]"
  by (simp add: numeral_eq_Suc)

lemma first_frame_uniforms:
  "\<exists>u. prependPreservedUniforms exampleEnv (with_arena q [] 0) [] 1 (2, nilPtr, nilPtr, nilPtr)
          zeroOffsets zeroRegion region16 =
     Return (u, with_arena q arenaAfterFirstFrame 26)"
  unfolding prependPreservedUniforms_def uniform_index_defs
  apply (simp add: nilPtr_def exampleEnv_def obind_def uniformBlock_fit uniformBlock_grow roundUpPower2_values roundUpPower2_Suc2
     setFloat_arena window_arena f32_of_int_16 fdiv_0_16 fdiv_16_16 fdiv_2_16 replicate_16 replicate_32 srcs_list_def offsets_list_def
     scaleOffsets_def scaleRegion_def region16_def zeroOffsets_def zeroRegion_def
     arenaAfterFirstFrame_def shiftUniforms_def PreservedUniformVariablesCount_def
     del: fdiv.simps)
  done

lemma roundUpPower2_40: "roundUpPower2 40 = Some 64" by code_simp

lemma second_frame_uniforms:
  "\<exists>u q'. prependPreservedUniforms exampleEnv (with_arena q arenaAfterFirstFrame 0) [] 1
          (nilPtr, nilPtr, nilPtr, nilPtr) zeroOffsets zeroRegion zeroRegion = Return (u, q') \<and>
     u ! 1 = [Fin 0, Fin 0, Fin 0, Fin 0, Fin 0, Fin 0, Fin 1, Fin 1]"
  unfolding prependPreservedUniforms_def uniform_index_defs
  by (simp add: nilPtr_def exampleEnv_def obind_def uniformBlock_fit uniformBlock_grow roundUpPower2_40
     setFloat_arena window_arena f32_of_int_16 fdiv_0_16 fdiv_16_16 fdiv_2_16 srcs_list_def offsets_list_def
     scaleOffsets_def scaleRegion_def zeroOffsets_def zeroRegion_def
     arenaAfterFirstFrame_def shiftUniforms_def PreservedUniformVariablesCount_def
     del: fdiv.simps)

lemma Enqueue_first:
  assumes cs: "commands q = []"
    and n: "length (a_indices a) \<le> IndicesCount"
    and dst: "a_dst a \<noteq> nilPtr" and sh: "a_shader a \<noteq> nilPtr"
    and p: "prependPreservedUniforms e (enqueueAppend q a (splits q a)) (a_uniforms a) (a_dst a)
              (a_srcs a) (a_offsets a) (a_dstRegion a) (a_srcRegion a) = Return (u0, q5)"
  shows "EnqueueDrawTrianglesCommand e q a =
     Return (q5\<lparr>drawTrianglesCommandPool := snd (pool_get (drawTrianglesCommandPool q5)),
               commands := [DrawTrianglesCommand
                              (new_command a (FilterUniformVariables e (a_shader a) u0))]\<rparr>)"
proof -
  define q4 where "q4 = enqueueAppend q a (splits q a)"
  have q4: "commands q4 = []" "vertices q4 = vertices q @ a_vertices a"
    by (simp_all add: q4_def enqueueAppend_def Let_def appendIndices_eq cs)
  from prependPreservedUniforms_returns[OF dst, of e q4 "a_uniforms a" "a_srcs a" "a_offsets a"
      "a_dstRegion a" "a_srcRegion a"] p
  have st: "arena_step q4 q5" unfolding q4_def by auto
  then have q5: "commands q5 = []" "vertices q5 = vertices q @ a_vertices a"
    using q4 by (simp_all add: arena_step_def)
  have new: "enqueueNew q5 a uniforms =
           Return (q5\<lparr>drawTrianglesCommandPool := snd (pool_get (drawTrianglesCommandPool q5)),
                     commands := commands q5 @ [DrawTrianglesCommand (new_command a uniforms)]\<rparr>)"
    for uniforms
    by (rule enqueueNew_effect) (simp add: q5)
  show ?thesis
    using n sh p
    unfolding EnqueueDrawTrianglesCommand_def splits_def[symmetric] Let_def
    by (simp add: obind_def enqueueCommand_def q5 new)
qed

lemma Flush_single_draw:
  assumes cs: "commands q = [DrawTrianglesCommand c]"
    and ne: "0 < c_nindices c" "c_nindices c \<le> IndicesCount"
    and vs: "length (c_vertices c) \<le> length (vertices q)"
    and es: "c_nindices c \<le> length (indices q)"
  shows "\<exists>tr. Flush noError q True [] =
     (Return None,
      q\<lparr>drawTrianglesCommandPool := pool_put (drawTrianglesCommandPool q) c,
         commands := [], vertices := [], indices := [],
         tmpNumVertexFloats := 0, tmpNumIndices := 0,
         float32sBuffer := (float32sBuffer q)\<lparr>fb_len := 0\<rparr>\<rparr>, tr)"
  using assms
  by (simp add: Flush_def flush_def call_def flush_loop.simps flush_round_def flush_deferred_def
      noError_def numIndices_def numVertices_def)

lemma fresh_frame_uniforms:
  "\<exists>u q'. prependPreservedUniforms exampleEnv (with_arena q [] 0) [] 1
          (nilPtr, nilPtr, nilPtr, nilPtr) zeroOffsets zeroRegion zeroRegion = Return (u, q') \<and>
     u ! 1 = [Fin 0, Fin 0, Fin 0, Fin 0, Fin 0, Fin 0, Fin 0, Fin 0]"
  unfolding prependPreservedUniforms_def uniform_index_defs
  by (simp add: nilPtr_def exampleEnv_def obind_def uniformBlock_fit uniformBlock_grow roundUpPower2_values roundUpPower2_Suc2
     setFloat_arena window_arena f32_of_int_16 fdiv_0_16 fdiv_16_16 fdiv_2_16 replicate_16 replicate_32 srcs_list_def offsets_list_def
     scaleOffsets_def scaleRegion_def zeroOffsets_def zeroRegion_def
     shiftUniforms_def PreservedUniformVariablesCount_def
     del: fdiv.simps)

lemma exampleDraw_ok:
  "length (a_indices (exampleDraw 8 3)) \<le> IndicesCount"
  "a_dst (exampleDraw 8 3) \<noteq> nilPtr" "a_shader (exampleDraw 8 3) \<noteq> nilPtr"
  "length (a_indices firstFrameDraw) \<le> IndicesCount"
  "a_dst firstFrameDraw \<noteq> nilPtr" "a_shader firstFrameDraw \<noteq> nilPtr"
  by (simp_all add: exampleDraw_def firstFrameDraw_def IndicesCount_def nilPtr_def)

lemma enqueueAppend_arena:
  "float32sBuffer (enqueueAppend q a s) = float32sBuffer q"
  by (simp add: enqueueAppend_def Let_def appendIndices_eq)

lemma with_arena_eq: "float32sBuffer q = \<lparr>fb_data = d, fb_len = l\<rparr> \<Longrightarrow> with_arena q d l = q"
  by (simp add: with_arena_def)

text \<open>
  Claim C6, at the input where the code leaves what the claim says. The claim
  has two parts. The shape holds for every draw (\<open>prependPreservedUniforms_returns\<close>):
  eight entries at the indices 0 to 7, then the uniforms of the caller in
  their order, and the entry at index 1 has two floats for each of the four
  sources. The floats of a nil source are not zero in general: the loop
  assigns nothing for a nil source, and the window comes from the arena, which
  \<^verbatim>\<open>Flush\<close> cuts to length zero at the end of a frame without clearing it.
  Here the first frame enqueues a draw whose source region covers its 16 by 16
  source image, and is flushed; the draw of the second frame has no source
  image at all, and the entry at index 1 of its command ends in 1, 1: the size
  of the source region of the frame before, divided by the size of the image.
  On a new queue the same draw gets eight zeros (\<open>fresh_frame_uniforms\<close>).
\<close>

theorem stale_source_sizes:
  "\<exists>q1 q2 tr q3 c.
     EnqueueDrawTrianglesCommand exampleEnv theCommandQueue firstFrameDraw = Return q1 \<and>
     Flush noError q1 True [] = (Return None, q2, tr) \<and>
     EnqueueDrawTrianglesCommand exampleEnv q2 (exampleDraw 8 3) = Return q3 \<and>
     commands q3 = [DrawTrianglesCommand c] \<and>
     c_srcs c = (nilPtr, nilPtr, nilPtr, nilPtr) \<and>
     c_uniforms c ! TextureSourceSizesUniformVariableIndex =
       [Fin 0, Fin 0, Fin 0, Fin 0, Fin 0, Fin 0, Fin 1, Fin 1]"
proof -
  define a1 where "a1 = firstFrameDraw"
  define a2 where "a2 = exampleDraw 8 3"
  define q4 where "q4 = enqueueAppend theCommandQueue a1 (splits theCommandQueue a1)"
  have "float32sBuffer q4 = \<lparr>fb_data = [], fb_len = 0\<rparr>"
    by (simp add: q4_def enqueueAppend_arena theCommandQueue_def)
  then have w4: "with_arena q4 [] 0 = q4" by (rule with_arena_eq)
  from first_frame_uniforms[of q4] obtain u1 where
    p1: "prependPreservedUniforms exampleEnv q4 (a_uniforms a1) (a_dst a1) (a_srcs a1) (a_offsets a1)
           (a_dstRegion a1) (a_srcRegion a1) = Return (u1, with_arena q4 arenaAfterFirstFrame 26)"
    unfolding w4
    by (auto simp: a1_def firstFrameDraw_def exampleDraw_def zeroOffsets_def)
  define c1 where "c1 = new_command a1 (FilterUniformVariables exampleEnv (a_shader a1) u1)"
  define q1 where "q1 = (with_arena q4 arenaAfterFirstFrame 26)
       \<lparr>drawTrianglesCommandPool :=
          snd (pool_get (drawTrianglesCommandPool (with_arena q4 arenaAfterFirstFrame 26))),
        commands := [DrawTrianglesCommand c1]\<rparr>"
  have e1: "EnqueueDrawTrianglesCommand exampleEnv theCommandQueue a1 = Return q1"
    unfolding q1_def c1_def
  proof (rule Enqueue_first)
    show "prependPreservedUniforms exampleEnv
            (enqueueAppend theCommandQueue a1 (splits theCommandQueue a1)) (a_uniforms a1) (a_dst a1)
            (a_srcs a1) (a_offsets a1) (a_dstRegion a1) (a_srcRegion a1) =
          Return (u1, with_arena q4 arenaAfterFirstFrame 26)"
      using p1 unfolding q4_def .
  qed (simp_all add: a1_def exampleDraw_ok theCommandQueue_def)
  have q1: "commands q1 = [DrawTrianglesCommand c1]" "vertices q1 = a_vertices a1"
    "length (indices q1) = 3"
    "float32sBuffer q1 = \<lparr>fb_data = arenaAfterFirstFrame, fb_len = 26\<rparr>"
    by (simp_all add: q1_def with_arena_def q4_def enqueueAppend_def Let_def appendIndices_eq
        theCommandQueue_def a1_def firstFrameDraw_def exampleDraw_def)
  have c1: "c_nindices c1 = 3" "c_vertices c1 = a_vertices a1"
    by (simp_all add: c1_def new_command_def a1_def firstFrameDraw_def exampleDraw_def)
  define q2 where "q2 = q1\<lparr>drawTrianglesCommandPool := pool_put (drawTrianglesCommandPool q1) c1,
         commands := [], vertices := [], indices := [],
         tmpNumVertexFloats := 0, tmpNumIndices := 0,
         float32sBuffer := (float32sBuffer q1)\<lparr>fb_len := 0\<rparr>\<rparr>"
  from Flush_single_draw[of q1 c1] q1 c1 obtain tr where
    f: "Flush noError q1 True [] = (Return None, q2, tr)"
    unfolding q2_def by (auto simp: IndicesCount_def)
  have q2: "commands q2 = []" "float32sBuffer q2 = \<lparr>fb_data = arenaAfterFirstFrame, fb_len = 0\<rparr>"
    by (simp_all add: q2_def q1)
  define q6 where "q6 = enqueueAppend q2 a2 (splits q2 a2)"
  have "float32sBuffer q6 = \<lparr>fb_data = arenaAfterFirstFrame, fb_len = 0\<rparr>"
    by (simp add: q6_def enqueueAppend_arena q2)
  then have w6: "with_arena q6 arenaAfterFirstFrame 0 = q6" by (rule with_arena_eq)
  from second_frame_uniforms[of q6] obtain u2 q7 where
    p2: "prependPreservedUniforms exampleEnv q6 (a_uniforms a2) (a_dst a2) (a_srcs a2) (a_offsets a2)
           (a_dstRegion a2) (a_srcRegion a2) = Return (u2, q7)"
    and u2: "u2 ! 1 = [Fin 0, Fin 0, Fin 0, Fin 0, Fin 0, Fin 0, Fin 1, Fin 1]"
    unfolding w6
    by (auto simp: a2_def exampleDraw_def zeroOffsets_def)
  define c2 where "c2 = new_command a2 (FilterUniformVariables exampleEnv (a_shader a2) u2)"
  have e2: "EnqueueDrawTrianglesCommand exampleEnv q2 a2 =
      Return (q7\<lparr>drawTrianglesCommandPool := snd (pool_get (drawTrianglesCommandPool q7)),
               commands := [DrawTrianglesCommand c2]\<rparr>)"
    unfolding c2_def
  proof (rule Enqueue_first)
    show "prependPreservedUniforms exampleEnv (enqueueAppend q2 a2 (splits q2 a2)) (a_uniforms a2)
            (a_dst a2) (a_srcs a2) (a_offsets a2) (a_dstRegion a2) (a_srcRegion a2) =
          Return (u2, q7)"
      using p2 unfolding q6_def .
  qed (simp_all add: a2_def exampleDraw_ok q2)
  have c2: "c_srcs c2 = (nilPtr, nilPtr, nilPtr, nilPtr)"
    "c_uniforms c2 ! TextureSourceSizesUniformVariableIndex =
       [Fin 0, Fin 0, Fin 0, Fin 0, Fin 0, Fin 0, Fin 1, Fin 1]"
    using u2
    by (simp_all add: c2_def new_command_def a2_def exampleDraw_def exampleEnv_def
        TextureSourceSizesUniformVariableIndex_def)
  show ?thesis
    using e1 f e2 c2 unfolding a1_def a2_def
    by (intro exI[of _ q1] exI[of _ q2] exI[of _ tr]
          exI[of _ "q7\<lparr>drawTrianglesCommandPool := snd (pool_get (drawTrianglesCommandPool q7)),
               commands := [DrawTrianglesCommand c2]\<rparr>"] exI[of _ c2]) simp
qed

section \<open>Properties of the merge test\<close>







lemma flt_trans: "flt a b \<Longrightarrow> flt b c \<Longrightarrow> flt a c"
  by (cases a; cases b; cases c) auto

lemma flt_not_NaN: "flt a b \<Longrightarrow> a \<noteq> NaN \<and> b \<noteq> NaN"
  by (cases a; cases b) auto

lemma flt_linear: "a \<noteq> NaN \<Longrightarrow> b \<noteq> NaN \<Longrightarrow> flt a b \<or> a = b \<or> flt b a"
  by (cases a; cases b) auto

text \<open>
  The box is the one the words describe: no coordinate of a vertex lies below
  the least one, and the least one is a coordinate of a vertex unless it is
  still plus infinity.
\<close>

lemma least_fold_lower:
  "m0 \<noteq> NaN \<Longrightarrow>
   (\<forall>x \<in> set xs. \<not> flt x (fold (\<lambda>x m. if flt x m then x else m) xs m0)) \<and>
   \<not> flt m0 (fold (\<lambda>x m. if flt x m then x else m) xs m0) \<and>
   fold (\<lambda>x m. if flt x m then x else m) xs m0 \<noteq> NaN"
proof (induction xs arbitrary: m0)
  case Nil
  then show ?case by (cases m0) auto
next
  case (Cons y ys)
  define m1 where "m1 = (if flt y m0 then y else m0)"
  define r where "r = fold (\<lambda>x m. if flt x m then x else m) ys m1"
  have m1: "m1 \<noteq> NaN"
    using Cons.prems flt_not_NaN[of y m0] by (auto simp: m1_def)
  from Cons.IH[OF m1] have ih: "\<forall>x \<in> set ys. \<not> flt x r" "\<not> flt m1 r" "r \<noteq> NaN"
    by (simp_all add: r_def)
  have le: "\<not> flt m0 r"
  proof
    assume a: "flt m0 r"
    show False
    proof (cases "flt y m0")
      case True
      from flt_trans[OF True a] ih(2) True show False by (simp add: m1_def)
    next
      case False
      with ih(2) a show False by (simp add: m1_def)
    qed
  qed
  have "\<not> flt y r"
  proof
    assume a: "flt y r"
    show False
    proof (cases "flt y m0")
      case True
      with ih(2) a show False by (simp add: m1_def)
    next
      case False
      from a have y: "y \<noteq> NaN" by (simp add: flt_not_NaN)
      from flt_linear[OF y Cons.prems] False have "y = m0 \<or> flt m0 y" by blast
      then show False
      proof
        assume "y = m0"
        with a le show False by simp
      next
        assume "flt m0 y"
        from flt_trans[OF this a] le show False by simp
      qed
    qed
  qed
  with le ih show ?case
    by (simp add: r_def m1_def)
qed

lemma least_lower: "x \<in> set xs \<Longrightarrow> \<not> flt x (least xs)"
  using least_fold_lower[of PInf xs] by (simp add: least_def)

lemma least_fold_attained:
  "fold (\<lambda>x m. if flt x m then x else m) xs m0 \<in> insert m0 (set xs)"
proof (induction xs arbitrary: m0)
  case Nil
  show ?case by simp
next
  case (Cons y ys)
  from Cons[of "if flt y m0 then y else m0"] show ?case
    by (auto split: if_splits)
qed

lemma least_attained: "least xs = PInf \<or> least xs \<in> set xs"
  using least_fold_attained[of xs PInf] by (simp add: least_def)

section \<open>Properties of flushing\<close>

lemma answers_append:
  "answers drv tr (evs1 @ evs2) = answers drv tr evs1 @ answers drv (tr @ evs1) evs2"
  by (induction evs1 arbitrary: tr) auto

lemma answers_length [simp]: "length (answers drv tr evs) = length evs"
  by (induction evs arbitrary: tr) auto

lemma answers_Nil_iff [simp]: "answers drv tr evs = [] \<longleftrightarrow> evs = []"
  by (cases evs) auto

lemma first_error_quiet: "list_all (\<lambda>a. a = None) as \<Longrightarrow> first_error as = None"
  by (induction as rule: first_error.induct) auto

lemma first_error_append_quiet:
  "list_all (\<lambda>a. a = None) as \<Longrightarrow> first_error (as @ bs) = first_error bs"
  by (induction as rule: first_error.induct) auto

lemma first_error_single: "first_error [a] = a"
  by (cases a) auto

lemma stops_at_error_first:
  assumes s: "stops_at_error drv tr evs err"
  shows "first_error (answers drv tr evs) = err"
proof (cases "evs = []")
  case True
  with s show ?thesis by (simp add: stops_at_error_def)
next
  case False
  then have ne: "answers drv tr evs \<noteq> []" by simp
  from s have q: "list_all (\<lambda>a. a = None) (butlast (answers drv tr evs))"
    by (simp add: stops_at_error_def)
  have "first_error (butlast (answers drv tr evs) @ [last (answers drv tr evs)]) =
        first_error [last (answers drv tr evs)]"
    by (rule first_error_append_quiet[OF q])
  with ne have "first_error (answers drv tr evs) = last (answers drv tr evs)"
    by (simp add: first_error_single)
  with s False show ?thesis
    by (simp add: stops_at_error_def)
qed

lemma stops_at_error_Nil [simp]: "stops_at_error drv tr [] err \<longleftrightarrow> err = None"
  by (auto simp: stops_at_error_def)

lemma stops_at_error_quiet:
  assumes s: "stops_at_error drv tr evs None"
  shows "list_all (\<lambda>a. a = None) (answers drv tr evs)"
proof (cases "evs = []")
  case True
  then show ?thesis by simp
next
  case False
  then have ne: "answers drv tr evs \<noteq> []" by simp
  from s False have "list_all (\<lambda>a. a = None)
      (butlast (answers drv tr evs) @ [last (answers drv tr evs)])"
    by (simp add: stops_at_error_def)
  with ne show ?thesis by simp
qed

lemma stops_at_error_append:
  assumes "stops_at_error drv tr evs1 None" and "stops_at_error drv (tr @ evs1) evs2 err"
  shows "stops_at_error drv tr (evs1 @ evs2) err"
proof (cases "evs2 = []")
  case True
  with assms show ?thesis by simp
next
  case False
  from stops_at_error_quiet[OF assms(1)] have q: "list_all (\<lambda>a. a = None) (answers drv tr evs1)" .
  from False have "butlast (answers drv tr (evs1 @ evs2)) =
      answers drv tr evs1 @ butlast (answers drv (tr @ evs1) evs2)"
    by (simp add: answers_append butlast_append)
  moreover from False have "last (answers drv tr (evs1 @ evs2)) = last (answers drv (tr @ evs1) evs2)"
    by (simp add: answers_append)
  ultimately show ?thesis
    using assms(2) q False by (simp add: stops_at_error_def)
qed

lemma stops_at_error_single:
  "stops_at_error drv tr [ev] err \<longleftrightarrow> err = (if has_error_result ev then drv (tr @ [ev]) else None)"
  by (simp add: stops_at_error_def)

lemma call_run:
  assumes "call drv tr ev = (err, tr')" "has_error_result ev" "exec_event ev"
  shows "\<exists>evs. tr' = tr @ evs \<and> stops_at_error drv tr evs err \<and> list_all exec_event evs"
  using assms by (intro exI[of _ "[ev]"]) (auto simp: call_def stops_at_error_single)

lemma call_run_quiet:
  assumes "snd (call drv tr ev) = tr'" "\<not> has_error_result ev" "exec_event ev"
  shows "\<exists>evs. tr' = tr @ evs \<and> stops_at_error drv tr evs None \<and> list_all exec_event evs"
  using assms by (intro exI[of _ "[ev]"]) (auto simp: call_def stops_at_error_single)

lemma no_call_run:
  "\<exists>evs. tr = tr @ evs \<and> stops_at_error drv tr evs None \<and> list_all exec_event evs"
  by (intro exI[of _ "[]"]) simp

lemma Exec_run:
  assumes "Exec drv c off tr = (err, tr')"
  shows "\<exists>evs. tr' = tr @ evs \<and> stops_at_error drv tr evs err \<and> list_all exec_event evs"
proof (cases c)
  case (DrawTrianglesCommand d)
  show ?thesis
  proof (cases "c_nindices d = 0")
    case True
    with assms DrawTrianglesCommand no_call_run[of tr drv] show ?thesis by simp
  next
    case False
    with assms DrawTrianglesCommand show ?thesis
      by (intro call_run[where ev = "EvDrawTriangles (c_dst d) (c_srcs d) (c_shader d) (c_nindices d) off
          (c_blend d) (c_dstRegion d) (c_uniforms d) (c_evenOdd d)"]) simp_all
  qed
next
  case (WritePixelsCommand dst nargs)
  show ?thesis
  proof (cases "nargs = 0")
    case True
    with assms WritePixelsCommand no_call_run[of tr drv] show ?thesis by simp
  next
    case False
    with assms WritePixelsCommand show ?thesis
      by (intro call_run[where ev = "EvWritePixels dst nargs"]) simp_all
  qed
next
  case (ReadPixelsCommand img x y w h)
  with assms show ?thesis by (intro call_run[where ev = "EvReadPixels img x y w h"]) simp_all
next
  case (DisposeImageCommand t)
  with assms have "err = None" "snd (call drv tr (EvDisposeImage t)) = tr'" by simp_all
  with call_run_quiet[of drv tr "EvDisposeImage t" tr'] show ?thesis by simp
next
  case (DisposeShaderCommand t)
  with assms have "err = None" "snd (call drv tr (EvDisposeShader t)) = tr'" by simp_all
  with call_run_quiet[of drv tr "EvDisposeShader t" tr'] show ?thesis by simp
next
  case (NewImageCommand r w h screen)
  show ?thesis
  proof (cases screen)
    case True
    with assms NewImageCommand show ?thesis
      by (intro call_run[where ev = "EvNewScreenFramebufferImage w h"]) simp_all
  next
    case False
    with assms NewImageCommand show ?thesis
      by (intro call_run[where ev = "EvNewImage w h"]) simp_all
  qed
next
  case (NewShaderCommand r)
  with assms show ?thesis by (intro call_run[where ev = "EvNewShader r"]) simp_all
next
  case (IsInvalidatedCommand img)
  with assms have "err = None" "snd (call drv tr (EvIsInvalidated img)) = tr'" by simp_all
  with call_run_quiet[of drv tr "EvIsInvalidated img" tr'] show ?thesis by simp
qed

lemma exec_chunk_run:
  assumes "exec_chunk drv cs off tr = (err, tr')"
  shows "\<exists>evs. tr' = tr @ evs \<and> stops_at_error drv tr evs err \<and> list_all exec_event evs"
  using assms
proof (induction cs arbitrary: off tr)
  case Nil
  then show ?case by simp
next
  case (Cons c cs)
  obtain e1 tr1 where e: "Exec drv c off tr = (e1, tr1)"
    by (cases "Exec drv c off tr")
  from Exec_run[OF e] obtain evs1 where
    1: "tr1 = tr @ evs1" "stops_at_error drv tr evs1 e1" "list_all exec_event evs1"
    by blast
  show ?case
  proof (cases e1)
    case None
    with Cons.prems e have "exec_chunk drv cs
            (case c of DrawTrianglesCommand dtc \<Rightarrow> off + numIndices dtc | _ \<Rightarrow> off) tr1 = (err, tr')"
      by simp
    from Cons.IH[OF this] obtain evs2 where
      2: "tr' = tr1 @ evs2" "stops_at_error drv tr1 evs2 err" "list_all exec_event evs2"
      by blast
    from 1(1) 2(1) have a: "tr' = tr @ (evs1 @ evs2)" by simp
    from 1(2) None have "stops_at_error drv tr evs1 None" by simp
    from stops_at_error_append[OF this] 2(2) 1(1)
    have b: "stops_at_error drv tr (evs1 @ evs2) err" by simp
    from 1(3) 2(3) have c: "list_all exec_event (evs1 @ evs2)" by simp
    from a b c show ?thesis by blast
  next
    case (Some a)
    with Cons.prems e have "err = e1" "tr' = tr1" by simp_all
    with 1 show ?thesis by blast
  qed
qed

lemma exec_body_event: "list_all exec_event evs \<Longrightarrow> list_all body_event evs"
proof (induction evs)
  case Nil
  then show ?case by simp
next
  case (Cons ev evs)
  then show ?case by (cases ev) simp_all
qed

lemma chunk_scan_no_hang: "chunk_scan cs nv ne nc \<noteq> Hang"
  by (induction cs nv ne nc rule: chunk_scan.induct) auto

lemma flush_round_run:
  "\<exists>evs. round_trace (flush_round drv cs vs es tr) = tr @ evs \<and> list_all body_event evs \<and>
      stops_at_error drv tr evs (round_err (flush_round drv cs vs es tr)) \<and>
      (\<forall>tr'. flush_round drv cs vs es tr \<noteq> Stop Hang tr') \<and>
      (\<forall>tr'. flush_round drv cs vs es tr \<noteq> Stop (Return None) tr')"
proof (cases "chunk_scan cs 0 0 0")
  case Panic
  then show ?thesis
    by (intro exI[of _ "[]"]) (simp add: flush_round_def round_trace_def round_err_def outcome_err_def)
next
  case Hang
  with chunk_scan_no_hang[of cs 0 0 0] show ?thesis by simp
next
  case (Return t)
  then obtain nv ne nc where s: "chunk_scan cs 0 0 0 = Return (nv, ne, nc)"
    by (cases t) auto
  define up where "up = (0 < ne \<and> \<not> (nv > length vs \<or> ne > length es))"
  show ?thesis
  proof (cases "0 < ne \<and> (nv > length vs \<or> ne > length es)")
    case True
    with s show ?thesis
      by (intro exI[of _ "[]"]) (simp add: flush_round_def round_trace_def round_err_def outcome_err_def)
  next
    case oob: False
    define evs0 where "evs0 = (if 0 < ne then [EvSetVertices (take nv vs) (take ne es)] else [])"
    define e0 where "e0 = (if 0 < ne then drv (tr @ evs0) else None)"
    have r0: "stops_at_error drv tr evs0 e0" "list_all body_event evs0"
      by (simp_all add: evs0_def e0_def stops_at_error_def)
    show ?thesis
    proof (cases e0)
      case (Some err)
      then have ne: "0 < ne" by (auto simp: e0_def split: if_splits)
      with Some oob s have "flush_round drv cs vs es tr = Stop (Return (Some err)) (tr @ evs0)"
        by (simp add: flush_round_def call_def evs0_def e0_def)
      with r0 Some show ?thesis
        by (intro exI[of _ evs0]) (simp add: round_trace_def round_err_def outcome_err_def)
    next
      case None
      obtain e1 tr1 where x: "exec_chunk drv (take nc cs) 0 (tr @ evs0) = (e1, tr1)"
        by (cases "exec_chunk drv (take nc cs) 0 (tr @ evs0)")
      from exec_chunk_run[OF x] obtain evs1 where
        1: "tr1 = (tr @ evs0) @ evs1" "stops_at_error drv (tr @ evs0) evs1 e1" "list_all exec_event evs1"
        by blast
      from r0(1) None have "stops_at_error drv tr evs0 None" by simp
      from stops_at_error_append[OF this 1(2)] have sa: "stops_at_error drv tr (evs0 @ evs1) e1" .
      have be: "list_all body_event (evs0 @ evs1)"
        using r0(2) exec_body_event[OF 1(3)] by simp
      have fr: "flush_round drv cs vs es tr =
          (case e1 of Some err \<Rightarrow> Stop (Return (Some err)) tr1
           | None \<Rightarrow> Next (drop nc cs) (if 0 < ne then drop nv vs else vs)
                        (if 0 < ne then drop ne es else es) tr1)"
        using s oob None x
        by (auto simp: flush_round_def call_def evs0_def e0_def split: option.splits)
      show ?thesis
      proof (cases e1)
        case None
        with fr sa be 1(1) show ?thesis
          by (intro exI[of _ "evs0 @ evs1"]) (simp add: round_trace_def round_err_def outcome_err_def)
      next
        case (Some err)
        with fr sa be 1(1) show ?thesis
          by (intro exI[of _ "evs0 @ evs1"]) (simp add: round_trace_def round_err_def outcome_err_def)
      qed
    qed
  qed
qed

lemma flush_loop_run:
  "\<exists>evs. snd (flush_loop drv cs vs es tr) = tr @ evs \<and> list_all body_event evs \<and>
      stops_at_error drv tr evs (outcome_err (fst (flush_loop drv cs vs es tr))) \<and>
      fst (flush_loop drv cs vs es tr) \<noteq> Hang"
proof (induction drv cs vs es tr rule: flush_loop.induct)
  case (1 drv cs vs es tr)
  show ?case
  proof (cases "cs = []")
    case True
    then show ?thesis
      by (intro exI[of _ "[]"]) (simp add: outcome_err_def flush_loop.simps)
  next
    case False
    from flush_round_run[of drv cs vs es tr] obtain evs where
      r: "round_trace (flush_round drv cs vs es tr) = tr @ evs" "list_all body_event evs"
         "stops_at_error drv tr evs (round_err (flush_round drv cs vs es tr))"
         "\<forall>tr'. flush_round drv cs vs es tr \<noteq> Stop Hang tr'"
      by blast
    show ?thesis
    proof (cases "flush_round drv cs vs es tr")
      case (Stop res tr1)
      with False have "flush_loop drv cs vs es tr = (res, tr1)"
        by (simp add: flush_loop.simps[of drv cs])
      with r Stop show ?thesis
        by (intro exI[of _ evs]) (auto simp: round_trace_def round_err_def)
    next
      case (Next cs1 vs1 es1 tr1)
      with False have fl: "flush_loop drv cs vs es tr = flush_loop drv cs1 vs1 es1 tr1"
        by (simp add: flush_loop.simps[of drv cs])
      from r Next have t1: "tr1 = tr @ evs" "stops_at_error drv tr evs None"
        by (simp_all add: round_trace_def round_err_def)
      from "1.IH"[OF False Next] obtain evs2 where
        2: "snd (flush_loop drv cs1 vs1 es1 tr1) = tr1 @ evs2" "list_all body_event evs2"
           "stops_at_error drv tr1 evs2 (outcome_err (fst (flush_loop drv cs1 vs1 es1 tr1)))"
           "fst (flush_loop drv cs1 vs1 es1 tr1) \<noteq> Hang"
        by blast
      from stops_at_error_append[OF t1(2)] 2(3) t1(1)
      have "stops_at_error drv tr (evs @ evs2) (outcome_err (fst (flush_loop drv cs1 vs1 es1 tr1)))"
        by simp
      with 2 r(2) t1(1) show ?thesis
        unfolding fl by (intro exI[of _ "evs @ evs2"]) simp
    qed
  qed
qed

lemma pool_put_bound: "length p \<le> 1024 \<Longrightarrow> length (pool_put p v) \<le> 1024"
  by (simp add: pool_put_def)

lemma pool_fold_bound:
  "length p \<le> 1024 \<Longrightarrow>
   length (fold (\<lambda>c p. case c of DrawTrianglesCommand d \<Rightarrow> pool_put p d | _ \<Rightarrow> p) cs p) \<le> 1024"
proof (induction cs arbitrary: p)
  case Nil
  then show ?case by simp
next
  case (Cons c cs)
  then show ?case by (cases c) (simp_all add: pool_put_bound)
qed

lemma first_error_append:
  "first_error (as @ bs) = (case first_error as of Some e \<Rightarrow> Some e | None \<Rightarrow> first_error bs)"
  by (induction as rule: first_error.induct) auto

text \<open>The three ways through \<open>flush\<close>.\<close>

lemma flush_early:
  "commands q = [] \<Longrightarrow> \<not> endFrame \<Longrightarrow> flush drv q endFrame tr = (Return None, q, tr)"
  by (simp add: flush_def)

lemma flush_Begin_fails:
  "\<not> (commands q = [] \<and> \<not> endFrame) \<Longrightarrow> drv (tr @ [EvBegin]) = Some err \<Longrightarrow>
   flush drv q endFrame tr = (Return (Some err), q, tr @ [EvBegin])"
  by (auto simp: flush_def call_def)

lemma flush_Begin_ok:
  assumes "\<not> (commands q = [] \<and> \<not> endFrame)" "drv (tr @ [EvBegin]) = None"
  shows "flush drv q endFrame tr =
     flush_deferred drv q endFrame
       (fst (flush_loop drv (commands q) (vertices q) (indices q) (tr @ [EvBegin])))
       (snd (flush_loop drv (commands q) (vertices q) (indices q) (tr @ [EvBegin])))"
proof -
  obtain r t where l: "flush_loop drv (commands q) (vertices q) (indices q) (tr @ [EvBegin]) = (r, t)"
    by (cases "flush_loop drv (commands q) (vertices q) (indices q) (tr @ [EvBegin])")
  from flush_loop_run[of drv "commands q" "vertices q" "indices q" "tr @ [EvBegin]"] l
  have "r \<noteq> Hang" by auto
  with assms l show ?thesis
    by (cases r) (auto simp: flush_def call_def)
qed

lemma Flush_queue:
  "Flush drv q endFrame tr = (res, q', tr') \<Longrightarrow>
   \<exists>q1. flush drv q endFrame tr = (res, q1, tr') \<and> commands q' = commands q1 \<and>
        vertices q' = vertices q1 \<and> indices q' = indices q1 \<and>
        tmpNumVertexFloats q' = tmpNumVertexFloats q1 \<and> tmpNumIndices q' = tmpNumIndices q1 \<and>
        drawTrianglesCommandPool q' = drawTrianglesCommandPool q1"
  by (cases "flush drv q endFrame tr"; cases "fst (flush drv q endFrame tr)")
     (auto simp: Flush_def split: if_splits)

text \<open>
  Claim C4, as the code has it. Take a queue in a state that enqueueing and
  flushing lead to. After \<^verbatim>\<open>Flush\<close>, the pool holds at most 1024 commands.
  When \<^verbatim>\<open>Begin\<close> succeeded, the command list, the vertices and the indices
  have length zero whatever happened next: a nil result, an error of
  \<^verbatim>\<open>SetVertices\<close>, of a command or of \<^verbatim>\<open>End\<close>, or a panic. The same holds
  when \<^verbatim>\<open>Flush\<close> had nothing to do (no command, not the end of a frame). When
  \<^verbatim>\<open>Begin\<close> fails, \<^verbatim>\<open>Flush\<close> returns its error before the deferred clean-up
  is set up, and commands, vertices and indices stay as they were.
\<close>

theorem Flush_empties_queue:
  assumes inv: "queue_inv q" and f: "Flush drv q endFrame tr = (res, q', tr')"
  shows "queue_inv q' \<and> length (drawTrianglesCommandPool q') \<le> 1024 \<and>
     ((commands q = [] \<and> \<not> endFrame) \<or> drv (tr @ [EvBegin]) = None \<longrightarrow>
        length (commands q') = 0 \<and> length (vertices q') = 0 \<and> length (indices q') = 0) \<and>
     (\<forall>err. \<not> (commands q = [] \<and> \<not> endFrame) \<and> drv (tr @ [EvBegin]) = Some err \<longrightarrow>
        res = Return (Some err) \<and> commands q' = commands q \<and> vertices q' = vertices q \<and>
        indices q' = indices q)"
proof -
  from Flush_queue[OF f] obtain q1 where
    q1: "flush drv q endFrame tr = (res, q1, tr')" "commands q' = commands q1"
        "vertices q' = vertices q1" "indices q' = indices q1"
        "drawTrianglesCommandPool q' = drawTrianglesCommandPool q1"
    by blast
  have inv': "queue_inv q' \<longleftrightarrow> queue_inv q1"
    using q1 by (simp add: queue_inv_def)
  consider (early) "commands q = []" "\<not> endFrame"
    | (fails) err where "\<not> (commands q = [] \<and> \<not> endFrame)" "drv (tr @ [EvBegin]) = Some err"
    | (ok) "\<not> (commands q = [] \<and> \<not> endFrame)" "drv (tr @ [EvBegin]) = None"
    by (cases "drv (tr @ [EvBegin])") auto
  then show ?thesis
  proof cases
    case early
    from flush_early[of q endFrame drv tr] early q1(1) have "q1 = q" by simp
    with early inv inv' q1 show ?thesis
      by (auto simp: queue_inv_def)
  next
    case fails
    from flush_Begin_fails[of q endFrame drv tr err] fails q1(1) have "q1 = q" "res = Return (Some err)" by simp_all
    with fails inv inv' q1 show ?thesis
      by (auto simp: queue_inv_def)
  next
    case ok
    from flush_Begin_ok[of q endFrame drv tr] ok q1(1)
    have "commands q1 = []" "vertices q1 = []" "indices q1 = []"
      "drawTrianglesCommandPool q1 =
         fold (\<lambda>c p. case c of DrawTrianglesCommand d \<Rightarrow> pool_put p d | _ \<Rightarrow> p)
           (commands q) (drawTrianglesCommandPool q)"
      by (auto simp: flush_deferred_def split: prod.splits)
    with ok inv pool_fold_bound[of "drawTrianglesCommandPool q" "commands q"] q1 show ?thesis
      by (simp add: queue_inv_def)
  qed
qed

theorem Flush_empties_queue_witness:
  "queue_inv (Enqueue theCommandQueue (DisposeImageCommand 1)) \<and>
   (\<exists>res q' tr'. Flush noError (Enqueue theCommandQueue (DisposeImageCommand 1)) False [] = (res, q', tr') \<and>
      length (commands q') = 0 \<and> length (vertices q') = 0 \<and> length (indices q') = 0 \<and>
      length (drawTrianglesCommandPool q') \<le> 1024)"
proof -
  define q where "q = Enqueue theCommandQueue (DisposeImageCommand 1)"
  have inv: "queue_inv q"
    unfolding q_def by (rule Enqueue_inv[OF queue_inv_theCommandQueue]) (simp_all add: cmd_vertices_def cmd_ne_def)
  obtain res q' tr' where f: "Flush noError q False [] = (res, q', tr')"
    by (cases "Flush noError q False []")
  from Flush_empties_queue[OF inv f] have
    "length (commands q') = 0 \<and> length (vertices q') = 0 \<and> length (indices q') = 0 \<and>
      length (drawTrianglesCommandPool q') \<le> 1024"
    by (simp add: noError_def)
  with inv f show ?thesis unfolding q_def by blast
qed

text \<open>
  The claim C4 as first stated (the queue is empty also after a failed
  \<^verbatim>\<open>Begin\<close>) does not hold: one draw of one vertex and three indices is
  enqueued on the empty queue; the flush on a driver whose \<^verbatim>\<open>Begin\<close> fails
  returns that error and leaves one command, eight vertex floats and three
  indices in the queue.
\<close>

theorem Flush_Begin_fails_keeps_queue:
  "\<exists>q. EnqueueDrawTrianglesCommand exampleEnv theCommandQueue (exampleDraw 8 3) = Return q \<and>
      (\<exists>q'. Flush noDevice q False [] = (Return (Some ''device lost''), q', [EvBegin]) \<and>
         length (commands q') = 1 \<and> length (vertices q') = 8 \<and> length (indices q') = 3)"
proof -
  have pre: "length (a_indices (exampleDraw 8 3)) \<le> IndicesCount"
    "a_dst (exampleDraw 8 3) \<noteq> nilPtr" "a_shader (exampleDraw 8 3) \<noteq> nilPtr"
    by (simp_all add: exampleDraw_def IndicesCount_def nilPtr_def)
  have nm: "\<not> merges theCommandQueue (exampleDraw 8 3) u" for u
    by (simp add: merges_def theCommandQueue_def)
  from EnqueueDrawTrianglesCommand_effect[OF queue_inv_theCommandQueue pre, of exampleEnv]
  obtain q u0 where r: "EnqueueDrawTrianglesCommand exampleEnv theCommandQueue (exampleDraw 8 3) = Return q"
    and v: "vertices q = vertices theCommandQueue @ a_vertices (exampleDraw 8 3)"
    and i: "indices q = indices theCommandQueue @
              map (\<lambda>i. i + rebase_offset theCommandQueue (exampleDraw 8 3)) (a_indices (exampleDraw 8 3))"
    and c: "if merges theCommandQueue (exampleDraw 8 3)
                 (FilterUniformVariables exampleEnv (a_shader (exampleDraw 8 3)) u0)
            then commands q = butlast (commands theCommandQueue) @
                    [DrawTrianglesCommand
                       (merged_command (case last (commands theCommandQueue) of DrawTrianglesCommand c \<Rightarrow> c)
                          (exampleDraw 8 3))] \<and>
                  drawTrianglesCommandPool q = drawTrianglesCommandPool theCommandQueue
            else commands q = commands theCommandQueue @
                   [DrawTrianglesCommand (new_command (exampleDraw 8 3)
                      (FilterUniformVariables exampleEnv (a_shader (exampleDraw 8 3)) u0))] \<and>
                 drawTrianglesCommandPool q = snd (pool_get (drawTrianglesCommandPool theCommandQueue))"
    unfolding Let_def by blast
  from c nm have "length (commands q) = 1"
    by (simp add: theCommandQueue_def)
  with r v i have q: "EnqueueDrawTrianglesCommand exampleEnv theCommandQueue (exampleDraw 8 3) = Return q"
    "length (vertices q) = 8" "length (indices q) = 3" "length (commands q) = 1"
    by (simp_all add: theCommandQueue_def exampleDraw_def)
  have "flush noDevice q False [] = (Return (Some ''device lost''), q, [] @ [EvBegin])"
    using q(4) by (intro flush_Begin_fails) (auto simp: noDevice_def)
  then have "Flush noDevice q False [] = (Return (Some ''device lost''), q, [EvBegin])"
    by (simp add: Flush_def)
  with q show ?thesis by blast
qed

text \<open>
  Claim C5, as the code has it. \<^verbatim>\<open>Flush\<close> always comes back. With nothing to
  do it calls nothing. Otherwise it calls \<^verbatim>\<open>Begin\<close>; when that fails, no
  other call is made (\<^verbatim>\<open>End\<close> is not called) and the error of \<^verbatim>\<open>Begin\<close> is
  returned. When \<^verbatim>\<open>Begin\<close> succeeds, the calls are \<^verbatim>\<open>Begin\<close>, the calls of
  the chunks, of which only the last can have failed, and then \<^verbatim>\<open>End\<close>, once
  and last, also after a failed call and after a panic. The error returned is
  the first error among the answers to all these calls, so the error of
  \<^verbatim>\<open>End\<close> is returned only when no call before it failed.
\<close>

theorem Flush_End_first_error:
  assumes f: "Flush drv q endFrame tr = (res, q', tr')"
  shows "res \<noteq> Hang \<and>
     (\<exists>evs. tr' = tr @ evs \<and>
        (\<forall>err. res = Return err \<longrightarrow> err = first_error (answers drv tr evs)) \<and>
        (if commands q = [] \<and> \<not> endFrame then evs = []
         else if drv (tr @ [EvBegin]) \<noteq> None then evs = [EvBegin]
         else (\<exists>body. evs = EvBegin # body @ [EvEnd endFrame] \<and> list_all body_event body \<and>
                 list_all (\<lambda>a. a = None) (butlast (answers drv (tr @ [EvBegin]) body)))))"
proof -
  from Flush_queue[OF f] obtain q1 where q1: "flush drv q endFrame tr = (res, q1, tr')"
    by blast
  consider (early) "commands q = []" "\<not> endFrame"
    | (fails) err where "\<not> (commands q = [] \<and> \<not> endFrame)" "drv (tr @ [EvBegin]) = Some err"
    | (ok) "\<not> (commands q = [] \<and> \<not> endFrame)" "drv (tr @ [EvBegin]) = None"
    by (cases "drv (tr @ [EvBegin])") auto
  then show ?thesis
  proof cases
    case early
    from flush_early[of q endFrame drv tr] early q1 have "res = Return None" "tr' = tr" by simp_all
    with early show ?thesis by (intro conjI exI[of _ "[]"]) simp_all
  next
    case fails
    from flush_Begin_fails[of q endFrame drv tr err] fails q1
    have "res = Return (Some err)" "tr' = tr @ [EvBegin]" by simp_all
    with fails show ?thesis by (intro conjI exI[of _ "[EvBegin]"]) auto
  next
    case ok
    define r where "r = fst (flush_loop drv (commands q) (vertices q) (indices q) (tr @ [EvBegin]))"
    define t where "t = snd (flush_loop drv (commands q) (vertices q) (indices q) (tr @ [EvBegin]))"
    from flush_loop_run[of drv "commands q" "vertices q" "indices q" "tr @ [EvBegin]"]
    obtain body where b: "t = (tr @ [EvBegin]) @ body" "list_all body_event body"
      "stops_at_error drv (tr @ [EvBegin]) body (outcome_err r)" "r \<noteq> Hang"
      unfolding r_def t_def by blast
    define err1 where "err1 = drv (t @ [EvEnd endFrame])"
    from flush_Begin_ok[of q endFrame drv tr] ok q1
    have d: "flush_deferred drv q endFrame r t = (res, q1, tr')"
      by (simp add: r_def t_def)
    then have tr': "tr' = t @ [EvEnd endFrame]"
      and res: "res = (case r of Return err \<Rightarrow> Return (if err1 \<noteq> None \<and> err = None then err1 else err)
                       | Panic \<Rightarrow> Panic | Hang \<Rightarrow> Hang)"
      unfolding err1_def by (auto simp: flush_deferred_def call_def)
    define evs where "evs = EvBegin # body @ [EvEnd endFrame]"
    have a: "answers drv tr evs = None # answers drv (tr @ [EvBegin]) body @ [err1]"
      using ok(2) b(1) by (simp add: evs_def answers_append err1_def)
    have fe: "first_error (answers drv tr evs) =
        (case outcome_err r of Some e \<Rightarrow> Some e | None \<Rightarrow> err1)"
      unfolding a using stops_at_error_first[OF b(3)]
      by (simp add: first_error_append first_error_single split: option.split)
    have 1: "res \<noteq> Hang" using res b(4) by (cases r) auto
    have 2: "tr' = tr @ evs" using tr' b(1) by (simp add: evs_def)
    have 3: "\<forall>err. res = Return err \<longrightarrow> err = first_error (answers drv tr evs)"
      unfolding fe using res by (cases r) (auto simp: outcome_err_def split: option.splits)
    have 4: "list_all (\<lambda>a. a = None) (butlast (answers drv (tr @ [EvBegin]) body))"
      using b(3) by (simp add: stops_at_error_def)
    from 1 2 3 4 b(2) ok show ?thesis
      by (intro conjI exI[of _ evs]) (auto simp: evs_def)
  qed
qed

lemma Flush_readFails:
  "Flush readFails exampleQueue False [] =
     (Return (Some ''read failed''), theCommandQueue, [EvBegin, EvReadPixels 1 0 0 1 1, EvEnd False])"
  by (simp add: Flush_def flush_def call_def flush_loop.simps flush_round_def flush_deferred_def
      Enqueue_def theCommandQueue_def readFails_def exampleQueue_def)

theorem Flush_End_first_error_witness:
  "\<exists>evs. [EvBegin, EvReadPixels 1 0 0 1 1, EvEnd False] = [] @ evs \<and>
      Some ''read failed'' = first_error (answers readFails [] evs) \<and>
      (\<exists>body. evs = EvBegin # body @ [EvEnd False] \<and> list_all body_event body)"
proof -
  have n: "exampleQueue \<noteq> theCommandQueue"
    by (simp add: exampleQueue_def Enqueue_def theCommandQueue_def)
  have "commands exampleQueue \<noteq> []" "readFails ([] @ [EvBegin]) = None"
    by (simp_all add: exampleQueue_def Enqueue_def readFails_def)
  with Flush_End_first_error[OF Flush_readFails] show ?thesis
    by auto
qed

text \<open>
  The claim C5 as first stated (\<^verbatim>\<open>End\<close> is called even when an earlier driver
  call failed) does not hold for \<^verbatim>\<open>Begin\<close>: on a driver whose \<^verbatim>\<open>Begin\<close> fails,
  the flush of two commands at the end of a frame makes the one call
  \<^verbatim>\<open>Begin\<close>.
\<close>

theorem Flush_Begin_fails_no_End:
  "\<exists>q'. Flush noDevice exampleQueue True [] = (Return (Some ''device lost''), q', [EvBegin]) \<and>
      EvEnd True \<notin> set [EvBegin]"
proof -
  have "flush noDevice exampleQueue True [] = (Return (Some ''device lost''), exampleQueue, [] @ [EvBegin])"
    by (intro flush_Begin_fails) (auto simp: noDevice_def)
  then show ?thesis
    by (simp add: Flush_def)
qed

section \<open>Chunks: what a flush uploads\<close>








lemma uploads_append [simp]: "uploads (xs @ ys) = uploads xs @ uploads ys"
  by (induction xs rule: uploads.induct) simp_all
















end
